(* ===== verification/C2_Prelude.thy ===== *)
theory C2_Prelude
  imports Main "HOL-Library.Word" "HOL-Library.Monad_Syntax" "HOL-Library.Sublist"
begin

unbundle bit_operations_syntax

text \<open>
  What every component of the development shares: the names of the machine integers of the C++
  code, the build and platform switches that the source tests, and the generic facts on bytes,
  lists and words that the component proofs rest on.

  A computation that meets undefined behaviour of C++ (a read or a write outside an object, an
  out-of-range pointer, a division by zero) or that a failed assertion aborts is \<open>None\<close>; every
  other result, error returns of the source included, is a value under \<open>Some\<close>. So a theorem that
  a function returns \<open>Some\<close> is a memory-safety statement.
\<close>

type_synonym byte = "8 word"
type_synonym u16 = "16 word"
type_synonym u32 = "32 word"
type_synonym u64 = "64 word"

text \<open>
  The two switches the source tests at compile time: \<open>port::kLittleEndian\<close> of \<open>port_posix.h\<close>, and
  \<open>NDEBUG\<close>, which removes every \<open>assert\<close> (the default build type of \<open>CMakeLists.txt\<close> is Release,
  which defines it).
\<close>

record platform =
  kLittleEndian :: bool
  NDEBUG :: bool

text \<open>
  How \<open>port_posix.h\<close> finds the byte order: the macros that the compiler and the system headers
  define. Without a pair to compare the header does not compile.
\<close>

record endian_macros =
  APPLE :: bool
  DARWIN_LITTLE_ENDIAN :: "int option"
  DARWIN_BYTE_ORDER :: "int option"
  LITTLE_ENDIAN :: "int option"
  BYTE_ORDER :: "int option"

definition darwin_endian :: "endian_macros \<Rightarrow> bool option" where
  "darwin_endian c =
     (if APPLE c
      then do { le \<leftarrow> DARWIN_LITTLE_ENDIAN c; bo \<leftarrow> DARWIN_BYTE_ORDER c; Some (bo = le) }
      else None)"

definition PLATFORM_IS_LITTLE_ENDIAN :: "endian_macros \<Rightarrow> bool option" where
  "PLATFORM_IS_LITTLE_ENDIAN c =
     (case darwin_endian c of
        Some e \<Rightarrow> Some e
      | None \<Rightarrow> do { bo \<leftarrow> BYTE_ORDER c; le \<leftarrow> LITTLE_ENDIAN c; Some (bo = le) })"

definition platform_of :: "endian_macros \<Rightarrow> bool \<Rightarrow> platform option" where
  "platform_of c ndebug =
     do { e \<leftarrow> PLATFORM_IS_LITTLE_ENDIAN c; Some \<lparr>kLittleEndian = e, NDEBUG = ndebug\<rparr> }"

lemma platform_of_linux:
  "\<not> APPLE c \<Longrightarrow> BYTE_ORDER c = Some bo \<Longrightarrow> LITTLE_ENDIAN c = Some le \<Longrightarrow>
   platform_of c ndebug = Some \<lparr>kLittleEndian = (bo = le), NDEBUG = ndebug\<rparr>"
  by (simp add: platform_of_def PLATFORM_IS_LITTLE_ENDIAN_def darwin_endian_def)

definition c_assert :: "platform \<Rightarrow> bool \<Rightarrow> unit option" where
  "c_assert pf b = (if NDEBUG pf \<or> b then Some () else None)"

lemma c_assert_True [simp]: "c_assert pf True = Some ()"
  by (simp add: c_assert_def)

lemma c_assert_holds: "b \<Longrightarrow> c_assert pf b = Some ()"
  by (simp add: c_assert_def)

section \<open>Collections of facts\<close>

named_theorems c2_defs "definitions of the operations, for unfolding one layer of the model"
named_theorems c2_unat "values of words as natural numbers"

section \<open>Options\<close>

lemma bind_Some_iff: "Option.bind x f = Some y \<longleftrightarrow> (\<exists>a. x = Some a \<and> f a = Some y)"
  by (cases x) auto

section \<open>Bytes of a word\<close>

text \<open>
  \<open>le_bytes n x\<close> lists the \<open>n\<close> low bytes of the number \<open>x\<close>, least significant first: the order
  that the comment of \<open>c2_coding.h\<close> calls endian-neutral.
\<close>

fun le_bytes :: "nat \<Rightarrow> nat \<Rightarrow> byte list" where
  "le_bytes 0 x = []"
| "le_bytes (Suc n) x = word_of_nat (x mod 256) # le_bytes n (x div 256)"

lemma le_bytes_numeral:
  "le_bytes (numeral k) x = word_of_nat (x mod 256) # le_bytes (pred_numeral k) (x div 256)"
  by (simp only: numeral_eq_Suc [of k] le_bytes.simps)

fun le_val :: "byte list \<Rightarrow> nat" where
  "le_val [] = 0"
| "le_val (b # bs) = unat b + 256 * le_val bs"

lemma length_le_bytes [simp]: "length (le_bytes n x) = n"
  by (induction n arbitrary: x) auto

lemma le_bytes_eq_Nil [simp]: "le_bytes n x = [] \<longleftrightarrow> n = 0"
  by (cases n) auto

lemma unat_word_of_nat_byte [c2_unat]: "x < 256 \<Longrightarrow> unat (word_of_nat x :: byte) = x"
  by (simp add: unat_of_nat take_bit_eq_mod)

lemma unat_byte_less [simp]: "unat (b :: byte) < 256"
  using unsigned_less [of b, where 'a = nat] by simp

lemma le_val_le_bytes: "le_val (le_bytes n x) = x mod 256 ^ n"
proof (induction n arbitrary: x)
  case 0
  then show ?case by simp
next
  case (Suc n)
  then show ?case
    by (simp add: unat_word_of_nat_byte mod_mult2_eq)
qed

lemma le_val_less: "le_val bs < 256 ^ length bs"
proof (induction bs)
  case Nil
  then show ?case by simp
next
  case (Cons b bs)
  have "unat b < 256" by simp
  with Cons have "unat b + 256 * le_val bs < 256 * 256 ^ length bs" by linarith
  then show ?case by simp
qed

lemma le_bytes_le_val: "le_bytes (length bs) (le_val bs) = bs"
proof (induction bs)
  case Nil
  then show ?case by simp
next
  case (Cons b bs)
  have "unat b < 256" by simp
  with Cons show ?case by simp
qed

text \<open>
  The object representation of an integer of \<open>n\<close> bytes in the memory of the machine, which
  \<open>memcpy\<close> from or to an integer exposes: it depends on the byte order of the platform.
\<close>

definition host_bytes :: "platform \<Rightarrow> nat \<Rightarrow> nat \<Rightarrow> byte list" where
  "host_bytes pf n x = (if kLittleEndian pf then le_bytes n x else rev (le_bytes n x))"

definition host_val :: "platform \<Rightarrow> byte list \<Rightarrow> nat" where
  "host_val pf bs = (if kLittleEndian pf then le_val bs else le_val (rev bs))"

lemma length_host_bytes [simp]: "length (host_bytes pf n x) = n"
  by (simp add: host_bytes_def)

lemma host_val_host_bytes: "host_val pf (host_bytes pf n x) = x mod 256 ^ n"
  by (simp add: host_val_def host_bytes_def le_val_le_bytes)

section \<open>Words\<close>

lemma not_bit_unat_less: "unat w < 2 ^ k \<Longrightarrow> k \<le> n \<Longrightarrow> \<not> bit w n" for w :: "'a::len word"
proof -
  assume a: "unat w < 2 ^ k" "k \<le> n"
  have "bit w n \<Longrightarrow> bit (unat w) n" by (simp add: bit_unsigned_iff bit_imp_possible_bit)
  moreover have "unat w = take_bit k (unat w)" using a by (simp add: take_bit_nat_eq_self)
  then have "\<not> bit (unat w) n" using a by (metis bit_take_bit_iff not_le)
  ultimately show ?thesis by blast
qed

text \<open>
  A \<open>size_t\<close> stored in an \<open>int\<close> and read back as a \<open>size_t\<close> keeps its value below 2 GiB only: the
  first conversion drops the upper half, the second extends the sign.
\<close>

lemma int_size_roundtrip [c2_unat]:
  "unat (w :: u64) < 2 ^ 31 \<Longrightarrow> unat (scast (ucast w :: u32) :: u64) = unat w"
  by (rule arg_cong [where f = unat], rule bit_word_eqI)
    (auto simp: bit_simps min_def not_bit_unat_less [where k = 31] split: if_splits)

lemma unat_ucast_u64 [simp]: "unat (ucast w :: u64) = unat w" for w :: u32
proof -
  have "unat w < 2 ^ 64"
    using unsigned_less [of w, where 'a = nat] by (rule less_le_trans) simp
  then show ?thesis by (simp add: unsigned_ucast_eq take_bit_nat_eq_self)
qed

text \<open>Joining bits by OR adds, when the low part has no bit at or above the shift.\<close>

lemma low_bits_disjoint: "unat w < 2 ^ k \<Longrightarrow> w AND push_bit k x = 0" for w x :: "'a::len word"
  by (rule bit_word_eqI) (auto simp: bit_simps not_bit_unat_less)

lemma or_push_bit_eq_add:
  "unat w < 2 ^ k \<Longrightarrow> w OR push_bit k x = w + 2 ^ k * x" for w x :: "'a::len word"
proof -
  assume "unat w < 2 ^ k"
  then have "w + push_bit k x = w OR push_bit k x"
    by (intro disjunctive_add_eq_or low_bits_disjoint)
  then show ?thesis by (simp add: push_bit_eq_mult mult.commute)
qed

lemma or_push_bit_nat:
  "a < 2 ^ k \<Longrightarrow> word_of_nat a OR push_bit k (word_of_nat b) = (word_of_nat (a + 2 ^ k * b) :: 'a::len word)"
  by (subst or_push_bit_eq_add)
    (auto simp: unat_of_nat take_bit_eq_mod intro: le_less_trans [OF mod_less_eq_dividend])

text \<open>\<open>ssize_t\<close> and \<open>size_t\<close> agree on values below \<open>2 ^ 63\<close>.\<close>

lemma sint_small: "uint w < 2 ^ 63 \<Longrightarrow> sint w = uint w" for w :: u64
proof -
  assume "uint w < 2 ^ 63"
  then have "- (2 ^ 63) \<le> uint w" "uint w < 2 ^ 63"
    using uint_ge_0 [of w] by linarith+
  then have "signed_take_bit 63 (uint w) = uint w" by (rule signed_take_bit_int_eq_self)
  then show ?thesis by (simp add: sint_uint)
qed

lemma uint_sint_nonneg: "0 \<le> sint w \<Longrightarrow> uint w = sint w" for w :: u64
  using sint_lt [of w] by (simp add: uint_sint take_bit_int_eq_self)

lemma sint_add_small:
  "- (2 ^ 63) \<le> sint a + sint b \<Longrightarrow> sint a + sint b < 2 ^ 63 \<Longrightarrow> sint (a + b) = sint a + sint b"
  for a b :: u64
  by (simp add: sint_word_ariths signed_take_bit_int_eq_self)

section \<open>Lists\<close>

lemma take_drop_append:
  "take n (drop i xs) = ys \<Longrightarrow> i + n \<le> length xs \<Longrightarrow> length ys = n"
  by auto

lemma list_split3:
  assumes "i + n \<le> length xs"
  shows "xs = take i xs @ take n (drop i xs) @ drop (i + n) xs"
  by (metis add.commute append_take_drop_id drop_drop)

end
