(* ===== verification/C2_Memory.thy ===== *)
theory C2_Memory
  imports C2_Prelude
begin

text \<open>
  The memory the C++ code runs on. A store maps block identifiers to the bytes of live objects
  (heap arrays, local buffers, the characters of a string); a pointer is null or an offset into
  a block, so that distinct objects never overlap, an access outside its block and any use of a
  freed block is \<open>None\<close>, and pointer arithmetic may reach one past the end of its block and no
  further, as the C++ standard has it. \<open>fill\<close> is the byte that fresh, uninitialised memory
  holds: no theorem fixes it, so no result depends on it.
\<close>

datatype ptr = Null | Ptr nat nat

record store =
  blocks :: "nat \<Rightarrow> byte list option"
  next_block :: nat
  fill :: byte

section \<open>Operations\<close>

fun load_bytes :: "store \<Rightarrow> ptr \<Rightarrow> nat \<Rightarrow> byte list option" where
  "load_bytes m Null n = None"
| "load_bytes m (Ptr b i) n =
     (case blocks m b of
        None \<Rightarrow> None
      | Some bs \<Rightarrow> if i + n \<le> length bs then Some (take n (drop i bs)) else None)"

fun store_bytes :: "store \<Rightarrow> ptr \<Rightarrow> byte list \<Rightarrow> store option" where
  "store_bytes m Null vs = None"
| "store_bytes m (Ptr b i) vs =
     (case blocks m b of
        None \<Rightarrow> None
      | Some bs \<Rightarrow>
          if i + length vs \<le> length bs
          then Some (m\<lparr>blocks := (blocks m)(b \<mapsto> take i bs @ vs @ drop (i + length vs) bs)\<rparr>)
          else None)"

definition load_byte :: "store \<Rightarrow> ptr \<Rightarrow> byte option" where
  "load_byte m p = map_option hd (load_bytes m p 1)"

definition store_byte :: "store \<Rightarrow> ptr \<Rightarrow> byte \<Rightarrow> store option" where
  "store_byte m p v = store_bytes m p [v]"

fun ptr_add :: "store \<Rightarrow> ptr \<Rightarrow> int \<Rightarrow> ptr option" where
  "ptr_add m Null k = None"
| "ptr_add m (Ptr b i) k =
     (case blocks m b of
        None \<Rightarrow> None
      | Some bs \<Rightarrow>
          if 0 \<le> int i + k \<and> int i + k \<le> int (length bs)
          then Some (Ptr b (nat (int i + k))) else None)"

text \<open>Comparison and difference of pointers are defined within one object only.\<close>

fun ptr_diff :: "ptr \<Rightarrow> ptr \<Rightarrow> int option" where
  "ptr_diff (Ptr b i) (Ptr c j) = (if b = c then Some (int i - int j) else None)"
| "ptr_diff p q = None"

definition ptr_less :: "ptr \<Rightarrow> ptr \<Rightarrow> bool option" where
  "ptr_less p q = map_option (\<lambda>d. d < 0) (ptr_diff p q)"

definition alloc :: "store \<Rightarrow> nat \<Rightarrow> store \<times> ptr" where
  "alloc m n =
     (m\<lparr>blocks := (blocks m)(next_block m \<mapsto> replicate n (fill m)),
        next_block := Suc (next_block m)\<rparr>, Ptr (next_block m) 0)"

text \<open>\<open>delete[]\<close>: nothing for a null pointer, a fault for anything but the start of a live block.\<close>

fun free :: "store \<Rightarrow> ptr \<Rightarrow> store option" where
  "free m Null = Some m"
| "free m (Ptr b i) =
     (if i = 0 \<and> blocks m b \<noteq> None then Some (m\<lparr>blocks := (blocks m)(b := None)\<rparr>) else None)"

text \<open>\<open>*(ptr++) = v\<close>\<close>

definition put_byte :: "store \<Rightarrow> ptr \<Rightarrow> byte \<Rightarrow> (store \<times> ptr) option" where
  "put_byte m p v = do { m' \<leftarrow> store_byte m p v; p' \<leftarrow> ptr_add m' p 1; Some (m', p') }"

text \<open>\<open>buf[k] = v\<close> and \<open>buf[k]\<close>\<close>

definition store_at :: "store \<Rightarrow> ptr \<Rightarrow> int \<Rightarrow> byte \<Rightarrow> store option" where
  "store_at m p k v = do { q \<leftarrow> ptr_add m p k; store_byte m q v }"

definition load_at :: "store \<Rightarrow> ptr \<Rightarrow> int \<Rightarrow> byte option" where
  "load_at m p k = do { q \<leftarrow> ptr_add m p k; load_byte m q }"

section \<open>Well-formed stores\<close>

text \<open>
  Block 0 is the string literal \<open>""\<close>, which the default constructor of \<open>Slice\<close> points to; blocks
  from \<open>next_block\<close> on are not in use.
\<close>

definition wf_store :: "store \<Rightarrow> bool" where
  "wf_store m \<longleftrightarrow> blocks m 0 = Some [0] \<and> 0 < next_block m \<and>
     (\<forall>b \<ge> next_block m. blocks m b = None)"

definition empty_store :: store where
  "empty_store = \<lparr>blocks = [0 \<mapsto> [0]], next_block = 1, fill = 0xCD\<rparr>"

text \<open>A small store with one more object, for concrete instances.\<close>

definition store_of :: "byte list \<Rightarrow> store" where
  "store_of bs = \<lparr>blocks = [0 \<mapsto> [0], 1 \<mapsto> bs], next_block = 2, fill = 0xCD\<rparr>"

lemma wf_store_of [simp]: "wf_store (store_of bs)"
  by (simp add: wf_store_def store_of_def)

lemma blocks_store_of [simp]: "blocks (store_of bs) (Suc 0) = Some bs"
  by (simp add: store_of_def)

lemma wf_empty_store [simp]: "wf_store empty_store"
  by (simp add: wf_store_def empty_store_def)

lemma wf_store_alloc: "wf_store m \<Longrightarrow> wf_store (fst (alloc m n))"
  by (auto simp: wf_store_def alloc_def)

lemma wf_store_fresh: "wf_store m \<Longrightarrow> blocks m (next_block m) = None"
  by (simp add: wf_store_def)

section \<open>Laws of reads, writes and pointer arithmetic\<close>

lemma load_bytes_length: "load_bytes m p n = Some bs \<Longrightarrow> length bs = n"
  by (cases p) (auto split: option.splits if_splits)

lemma load_bytes_0: "load_bytes m (Ptr b i) 0 = Some [] \<longleftrightarrow> (\<exists>bs. blocks m b = Some bs \<and> i \<le> length bs)"
  by (auto split: option.splits)

lemma load_bytes_take:
  "load_bytes m p n = Some bs \<Longrightarrow> k \<le> n \<Longrightarrow> load_bytes m p k = Some (take k bs)"
  by (cases p) (auto split: option.splits if_splits simp: min_def)

lemma load_byte_Cons: "load_bytes m p (Suc n) = Some (c # bs) \<Longrightarrow> load_byte m p = Some c"
  by (drule load_bytes_take [where k = 1]) (auto simp: load_byte_def)

lemma ptr_add_zero: "load_bytes m p n = Some bs \<Longrightarrow> ptr_add m p 0 = Some p"
  by (cases p) (auto split: option.splits if_splits)

lemma load_bytes_drop:
  assumes "load_bytes m p n = Some bs" "k \<le> n"
  shows "\<exists>q. ptr_add m p (int k) = Some q \<and> load_bytes m q (n - k) = Some (drop k bs)"
  using assms by (cases p) (auto split: option.splits if_splits simp: drop_take add.commute nat_int_add)

lemma load_bytes_nth:
  assumes "load_bytes m p n = Some bs" "k < n"
  shows "\<exists>q. ptr_add m p (int k) = Some q \<and> load_byte m q = Some (bs ! k)"
proof -
  obtain q where q: "ptr_add m p (int k) = Some q" "load_bytes m q (n - k) = Some (drop k bs)"
    using load_bytes_drop [OF assms(1), of k] assms(2) by auto
  have "drop k bs = bs ! k # drop (Suc k) bs" "n - k = Suc (n - Suc k)"
    using assms load_bytes_length [OF assms(1)] by (auto simp: Cons_nth_drop_Suc)
  with q have "load_byte m q = Some (bs ! k)" by (auto intro: load_byte_Cons)
  with q show ?thesis by blast
qed

lemma load_bytes_append:
  assumes "load_bytes m p n = Some (xs @ ys)"
  shows "\<exists>q. ptr_add m p (int (length xs)) = Some q \<and> load_bytes m p (length xs) = Some xs
     \<and> load_bytes m q (length ys) = Some ys"
proof -
  have n: "n = length xs + length ys" using load_bytes_length [OF assms] by simp
  have "\<exists>q. ptr_add m p (int (length xs)) = Some q \<and>
      load_bytes m q (n - length xs) = Some (drop (length xs) (xs @ ys))"
    by (rule load_bytes_drop [OF assms]) (simp add: n)
  moreover have "load_bytes m p (length xs) = Some (take (length xs) (xs @ ys))"
    by (rule load_bytes_take [OF assms]) (simp add: n)
  ultimately show ?thesis using n by simp
qed

lemma ptr_add_add:
  assumes "ptr_add m p j = Some q" "ptr_add m q k = Some r"
  shows "ptr_add m p (j + k) = Some r"
  using assms by (cases p) (auto split: option.splits if_splits simp: algebra_simps)

lemma ptr_diff_add: "ptr_add m p k = Some q \<Longrightarrow> ptr_diff q p = Some k"
  by (cases p) (auto split: option.splits if_splits)

lemma ptr_diff_add2:
  "ptr_add m p k = Some q \<Longrightarrow> ptr_add m p j = Some r \<Longrightarrow> ptr_diff q r = Some (k - j)"
  by (cases p) (auto split: option.splits if_splits)

lemma ptr_add_diff_left:
  assumes "ptr_add m p j = Some q" "ptr_add m p k = Some r"
  shows "ptr_add m q (k - j) = Some r"
  using assms by (cases p) (auto split: option.splits if_splits)

lemma ptr_less_add:
  "ptr_add m p j = Some q \<Longrightarrow> ptr_add m p k = Some r \<Longrightarrow> ptr_less q r = Some (j < k)"
  by (simp add: ptr_less_def ptr_diff_add2)

lemma ptr_add_assoc: "ptr_add m p j = Some q \<Longrightarrow> ptr_add m q k = ptr_add m p (j + k)"
  by (cases p) (auto split: option.splits if_splits simp: algebra_simps)

section \<open>Sequences of writes\<close>

text \<open>A write changes no block's length, so pointer arithmetic is the same after it.\<close>

lemma store_bytes_ptr_add: "store_bytes m p vs = Some m' \<Longrightarrow> ptr_add m' q k = ptr_add m q k"
  by (cases p; cases q) (auto split: option.splits if_splits)

text \<open>A write leaves every other object alone.\<close>

fun block_of :: "ptr \<Rightarrow> nat option" where
  "block_of Null = None"
| "block_of (Ptr b i) = Some b"

lemma store_bytes_other:
  "store_bytes m p vs = Some m' \<Longrightarrow> block_of p \<noteq> block_of q \<Longrightarrow> load_bytes m' q n = load_bytes m q n"
  by (cases p; cases q) (auto split: option.splits if_splits)

lemma block_of_ptr_add: "ptr_add m p k = Some q \<Longrightarrow> block_of q = block_of p"
  by (cases p) (auto split: option.splits if_splits)

lemma store_bytes_append:
  assumes "store_bytes m p vs = Some m'" "ptr_add m' p (int (length vs)) = Some q"
  shows "store_bytes m' q ws = store_bytes m p (vs @ ws)"
proof -
  from assms(1) obtain b i blk where p: "p = Ptr b i" "blocks m b = Some blk"
      "i + length vs \<le> length blk"
      "m' = m\<lparr>blocks := (blocks m)(b \<mapsto> take i blk @ vs @ drop (i + length vs) blk)\<rparr>"
    by (cases p) (auto split: option.splits if_splits)
  with assms(2) have "q = Ptr b (i + length vs)"
    by (auto split: if_splits simp: nat_add_distrib)
  moreover have "take (i + length vs) (take i blk @ vs @ drop (i + length vs) blk) = take i blk @ vs"
    "length (take i blk @ vs @ drop (i + length vs) blk) = length blk"
    using p(3) by simp_all
  moreover have "drop (i + length vs + length ws) (take i blk @ vs @ drop (i + length vs) blk) =
      drop (i + length (vs @ ws)) blk"
    using p(3) by (simp add: ac_simps)
  ultimately show ?thesis using p by (simp add: add.assoc)
qed

lemma store_at_ptr_add: "store_at m p i v = Some m' \<Longrightarrow> ptr_add m' q k = ptr_add m q k"
  by (auto simp: store_at_def store_byte_def bind_Some_iff store_bytes_ptr_add)

lemma store_bytes_room: "store_bytes m p vs = Some m' \<Longrightarrow> \<exists>q. ptr_add m p (int (length vs)) = Some q"
  by (cases p) (auto split: option.splits if_splits)

lemma store_bytes_next_fill:
  "store_bytes m p vs = Some m' \<Longrightarrow> next_block m' = next_block m \<and> fill m' = fill m"
  by (cases p) (auto split: option.splits if_splits)

lemma store_bytes_Nil: "ptr_add m p k = Some q \<Longrightarrow> store_bytes m q [] = Some m"
  by (cases p) (auto split: option.splits if_splits simp: map_upd_triv)

lemma store_bytes_Cons:
  "store_bytes m p (v # vs) =
     do { m' \<leftarrow> store_byte m p v; q \<leftarrow> ptr_add m' p 1; store_bytes m' q vs }"
  by (cases p)
    (auto simp: store_byte_def nat_add_distrib min_def add.commute split: option.splits if_splits)

lemma load_store_bytes: "store_bytes m p vs = Some m' \<Longrightarrow> load_bytes m' p (length vs) = Some vs"
  by (cases p) (auto split: option.splits if_splits)

lemma store_bytes_valid:
  "load_bytes m p n = Some old \<Longrightarrow> length vs \<le> n \<Longrightarrow> \<exists>m'. store_bytes m p vs = Some m'"
  by (cases p) (auto split: option.splits if_splits)

fun store_from :: "store \<Rightarrow> ptr \<Rightarrow> int \<Rightarrow> byte list \<Rightarrow> store option" where
  "store_from m p k [] = Some m"
| "store_from m p k (v # vs) = do { m' \<leftarrow> store_at m p k v; store_from m' p (k + 1) vs }"

fun put_bytes :: "store \<Rightarrow> ptr \<Rightarrow> byte list \<Rightarrow> (store \<times> ptr) option" where
  "put_bytes m p [] = Some (m, p)"
| "put_bytes m p (v # vs) = do { (m', p') \<leftarrow> put_byte m p v; put_bytes m' p' vs }"

text \<open>Writing byte by byte, through an index or a moving pointer, is one block write.\<close>

lemma store_from_store_bytes:
  "ptr_add m p k = Some q \<Longrightarrow> store_from m p k vs = store_bytes m q vs"
proof (induction vs arbitrary: m k q)
  case Nil
  then show ?case by (simp add: store_bytes_Nil)
next
  case (Cons v vs)
  have "store_from m' p (k + 1) vs = do { r \<leftarrow> ptr_add m' q 1; store_bytes m' r vs }"
    if "store_byte m q v = Some m'" for m'
  proof -
    have add: "ptr_add m' p' j = ptr_add m p' j" for p' j
      using that unfolding store_byte_def by (rule store_bytes_ptr_add)
    have "ptr_add m' q 1 = ptr_add m' p (k + 1)"
      unfolding add by (rule ptr_add_assoc [OF Cons.prems])
    moreover from that have "ptr_add m' q 1 \<noteq> None"
      by (cases q) (auto simp: store_byte_def split: option.splits if_splits)
    ultimately show ?thesis using Cons.IH [of m' "k + 1"] by auto
  qed
  then show ?case
    by (cases "store_byte m q v") (simp_all add: store_bytes_Cons store_at_def Cons.prems)
qed

lemma store_at_chain:
  "load_bytes m p n = Some old \<Longrightarrow> store_from m p 0 vs = store_bytes m p vs"
  by (rule store_from_store_bytes) (rule ptr_add_zero)

lemma put_byte_Some:
  "put_byte m p v = Some (m', p') \<longleftrightarrow> store_byte m p v = Some m' \<and> ptr_add m' p 1 = Some p'"
  by (auto simp: put_byte_def bind_Some_iff)

lemma put_bytes_store_bytes:
  "vs \<noteq> [] \<Longrightarrow> put_bytes m p vs =
     do { m' \<leftarrow> store_bytes m p vs; q \<leftarrow> ptr_add m' p (int (length vs)); Some (m', q) }"
proof (induction vs arbitrary: m p)
  case Nil
  then show ?case by simp
next
  case (Cons v vs)
  show ?case
  proof (cases "put_byte m p v")
    case None
    then show ?thesis
      by (auto simp: store_bytes_Cons put_byte_def split: Option.bind_splits)
  next
    case (Some mp)
    obtain m1 p1 where mp: "mp = (m1, p1)" by (cases mp)
    with Some have w: "store_byte m p v = Some m1" and a: "ptr_add m1 p 1 = Some p1"
      by (auto simp: put_byte_Some)
    show ?thesis
    proof (cases "vs = []")
      case True
      with w a Some mp show ?thesis by (simp add: store_bytes_Cons store_bytes_Nil [OF a])
    next
      case False
      have "ptr_add m2 p1 k = ptr_add m2 p (1 + k)" if "store_bytes m1 p1 vs = Some m2" for m2 k
        using ptr_add_assoc [OF a] by (simp only: store_bytes_ptr_add [OF that])
      with False w a Some mp show ?thesis
        by (auto simp: store_bytes_Cons Cons.IH split: Option.bind_splits)
    qed
  qed
qed

lemma ptr_add_not_Null: "ptr_add m p k = Some q \<Longrightarrow> q \<noteq> Null"
  by (cases p) (auto split: option.splits if_splits)

text \<open>Writing into a buffer that is large enough, and reading back what was written.\<close>

lemma put_bytes_buffer:
  assumes "load_bytes m buf n = Some old" "vs \<noteq> []" "length vs \<le> n"
  shows "\<exists>m' q. put_bytes m buf vs = Some (m', q) \<and> ptr_diff q buf = Some (int (length vs)) \<and>
     load_bytes m' buf (length vs) = Some vs"
proof -
  obtain m' where m': "store_bytes m buf vs = Some m'"
    using store_bytes_valid [OF assms(1,3)] by blast
  moreover obtain q where "ptr_add m buf (int (length vs)) = Some q"
    using load_bytes_drop [OF assms(1,3)] by blast
  then have "ptr_add m' buf (int (length vs)) = Some q"
    by (simp only: store_bytes_ptr_add [OF m'])
  ultimately show ?thesis
    using assms(2) load_store_bytes [OF m'] by (simp add: put_bytes_store_bytes ptr_diff_add)
qed

lemma load_bytes_alloc: "load_bytes (fst (alloc m n)) (snd (alloc m n)) n = Some (replicate n (fill m))"
  by (simp add: alloc_def)

section \<open>Filling a fresh object\<close>

text \<open>
  \<open>with_fresh m bs\<close> is \<open>m\<close> with one more object that holds \<open>bs\<close>. Code that allocates an array and
  fills it from the front passes through stores of this form.
\<close>

definition with_fresh :: "store \<Rightarrow> byte list \<Rightarrow> store" where
  "with_fresh m bs =
     m\<lparr>blocks := (blocks m)(next_block m \<mapsto> bs), next_block := Suc (next_block m)\<rparr>"

lemma alloc_with_fresh: "alloc m n = (with_fresh m (replicate n (fill m)), Ptr (next_block m) 0)"
  by (simp add: alloc_def with_fresh_def)

lemma blocks_with_fresh: "blocks (with_fresh m bs) = (blocks m)(next_block m \<mapsto> bs)"
  by (simp add: with_fresh_def)

lemma wf_with_fresh: "wf_store m \<Longrightarrow> wf_store (with_fresh m bs)"
  by (auto simp: wf_store_def with_fresh_def)

lemma ptr_add_with_fresh:
  "0 \<le> k \<Longrightarrow> k \<le> int (length bs) \<Longrightarrow>
     ptr_add (with_fresh m bs) (Ptr (next_block m) i) (k - int i) = Some (Ptr (next_block m) (nat k))"
  by (simp add: blocks_with_fresh)

lemma store_with_fresh:
  assumes "length pre = i" "length vs \<le> r"
  shows "store_bytes (with_fresh m (pre @ replicate r c)) (Ptr (next_block m) i) vs =
    Some (with_fresh m ((pre @ vs) @ replicate (r - length vs) c))"
  using assms by (auto simp: with_fresh_def)

lemma store_at_with_fresh:
  assumes "int (length pre) = k" "0 < r"
  shows "store_at (with_fresh m (pre @ replicate r c)) (Ptr (next_block m) 0) k v =
    Some (with_fresh m ((pre @ [v]) @ replicate (r - 1) c))"
proof -
  have "ptr_add (with_fresh m (pre @ replicate r c)) (Ptr (next_block m) 0) k =
      Some (Ptr (next_block m) (length pre))"
    using assms by (auto simp: blocks_with_fresh)
  then show ?thesis
    using store_with_fresh [of pre "length pre" "[v]" r m c] assms(2)
    by (simp add: store_at_def store_byte_def)
qed

text \<open>Old objects read as before.\<close>

lemma load_with_fresh:
  assumes "wf_store m" "load_bytes m p n = Some vs"
  shows "load_bytes (with_fresh m bs) p n = Some vs"
proof (cases p)
  case (Ptr b i)
  with assms have "b \<noteq> next_block m"
    using wf_store_fresh [of m] by (auto split: option.splits)
  with Ptr assms(2) show ?thesis by (simp add: blocks_with_fresh)
qed (use assms in simp)

text \<open>Reads depend on live objects only.\<close>

lemma load_bytes_frame:
  assumes "load_bytes m p n = Some vs" "\<And>b. blocks m b \<noteq> None \<Longrightarrow> blocks m' b = blocks m b"
  shows "load_bytes m' p n = Some vs"
proof (cases p)
  case (Ptr b i)
  with assms(1) have "blocks m b \<noteq> None" by (auto split: option.splits)
  with assms(2) have "blocks m' b = blocks m b" .
  with Ptr assms(1) show ?thesis by simp
qed (use assms in simp)

lemma wf_free: "wf_store m \<Longrightarrow> b \<noteq> 0 \<Longrightarrow> wf_store (m\<lparr>blocks := (blocks m)(b := None)\<rparr>)"
  by (simp add: wf_store_def)

end
