(* ===== verification/C2_Slice.thy ===== *)
theory C2_Slice
  imports C2_Memory "HOL-Library.List_Lexorder"
begin

text \<open>
  \<open>Slice\<close> (\<open>c2_slice.h\<close>, \<open>c2_slice.cc\<close>): a pointer into storage that something else owns, and a
  size. \<open>slice_bytes m s\<close> is the byte sequence a slice denotes in a store; a slice is valid when
  that is \<open>Some\<close>. The operations are proved to refine the operations on byte sequences: \<open>drop\<close>,
  \<open>take\<close>, \<open>prefix\<close>, \<open>suffix\<close>, the lexicographic order on unsigned bytes.
\<close>

record slice =
  sl_data :: ptr
  sl_size :: u64

text \<open>A \<open>std::string\<close> in memory: its characters (a terminating zero follows them) and its size.\<close>

record std_string =
  str_data :: ptr
  str_size :: u64

section \<open>The C library's byte functions\<close>

text \<open>
  \<open>memcmp\<close> promises the sign of its result only, and the code uses nothing but its sign and
  whether it is zero: the model returns the sign.
\<close>

fun memcmp_bytes :: "byte list \<Rightarrow> byte list \<Rightarrow> int" where
  "memcmp_bytes (a # as) (b # bs) =
     (if a = b then memcmp_bytes as bs else if a < b then - 1 else 1)"
| "memcmp_bytes as bs = 0"

definition memcmp :: "store \<Rightarrow> ptr \<Rightarrow> ptr \<Rightarrow> nat \<Rightarrow> int option" where
  "memcmp m p q n =
     do { as \<leftarrow> load_bytes m p n; bs \<leftarrow> load_bytes m q n; Some (memcmp_bytes as bs) }"

fun strlen :: "store \<Rightarrow> ptr \<Rightarrow> nat option" where
  "strlen m Null = None"
| "strlen m (Ptr b i) =
     (case blocks m b of
        None \<Rightarrow> None
      | Some bs \<Rightarrow> if 0 \<in> set (drop i bs) then Some (length (takeWhile (\<lambda>c. c \<noteq> 0) (drop i bs)))
                   else None)"

section \<open>Constructors and accessors\<close>

definition Slice_empty :: slice where
  "Slice_empty = \<lparr>sl_data = Ptr 0 0, sl_size = 0\<rparr>"

definition Slice_new :: "ptr \<Rightarrow> u64 \<Rightarrow> slice" where
  "Slice_new d n = \<lparr>sl_data = d, sl_size = n\<rparr>"

definition Slice_of_string :: "std_string \<Rightarrow> slice" where
  "Slice_of_string s = \<lparr>sl_data = str_data s, sl_size = str_size s\<rparr>"

definition Slice_of_cstr :: "store \<Rightarrow> ptr \<Rightarrow> slice option" where
  "Slice_of_cstr m s = do { n \<leftarrow> strlen m s; Some \<lparr>sl_data = s, sl_size = word_of_nat n\<rparr> }"

definition Slice_data :: "slice \<Rightarrow> ptr" where
  "Slice_data s = sl_data s"

definition Slice_size :: "slice \<Rightarrow> u64" where
  "Slice_size s = sl_size s"

definition Slice_is_empty :: "slice \<Rightarrow> bool" where
  "Slice_is_empty s = (sl_size s = 0)"

text \<open>
  \<open>operator[]\<close>: \<open>n += size_\<close> adds in \<open>size_t\<close> and converts back to \<open>ssize_t\<close>; in the assertion
  \<open>n < size_\<close> compares as \<open>size_t\<close>.
\<close>

definition Slice_index :: "platform \<Rightarrow> store \<Rightarrow> slice \<Rightarrow> u64 \<Rightarrow> byte option" where
  "Slice_index pf m s n =
     do { let n = (if n <s 0 then n + sl_size s else n);
          c_assert pf (0 \<le>s n \<and> n < sl_size s);
          p \<leftarrow> ptr_add m (sl_data s) (sint n);
          load_byte m p }"

section \<open>Mutators\<close>

definition Slice_clear :: "slice \<Rightarrow> slice" where
  "Slice_clear s = s\<lparr>sl_data := Ptr 0 0, sl_size := 0\<rparr>"

definition Slice_remove_prefix :: "platform \<Rightarrow> store \<Rightarrow> slice \<Rightarrow> u64 \<Rightarrow> slice option" where
  "Slice_remove_prefix pf m s n =
     do { c_assert pf (n \<le> sl_size s);
          d \<leftarrow> ptr_add m (sl_data s) (uint n);
          Some (s\<lparr>sl_data := d, sl_size := sl_size s - n\<rparr>) }"

definition Slice_remove_suffix :: "platform \<Rightarrow> slice \<Rightarrow> u64 \<Rightarrow> slice option" where
  "Slice_remove_suffix pf s n =
     do { c_assert pf (n \<le> sl_size s);
          Some (s\<lparr>sl_size := sl_size s - n\<rparr>) }"

section \<open>Copies out\<close>

definition Slice_ToString :: "store \<Rightarrow> slice \<Rightarrow> byte list option" where
  "Slice_ToString m s =
     (if sl_size s \<noteq> 0 then load_bytes m (sl_data s) (unat (sl_size s)) else Some [])"

definition Slice_c_str :: "platform \<Rightarrow> store \<Rightarrow> slice \<Rightarrow> ptr option" where
  "Slice_c_str pf m s =
     (if NDEBUG pf then Some (sl_data s)
      else do { p \<leftarrow> ptr_add m (sl_data s) (uint (sl_size s));
                c \<leftarrow> load_byte m p;
                c_assert pf (c = 0);
                Some (sl_data s) })"

definition Slice_substr :: "platform \<Rightarrow> store \<Rightarrow> slice \<Rightarrow> u64 \<Rightarrow> byte list option" where
  "Slice_substr pf m s start =
     do { c_assert pf (start \<le> sl_size s);
          p \<leftarrow> ptr_add m (sl_data s) (uint start);
          load_bytes m p (unat (sl_size s - start)) }"

section \<open>Comparisons\<close>

text \<open>\<open>const int min_len\<close> takes a \<open>size_t\<close>, and \<open>memcmp\<close> takes it back as a \<open>size_t\<close>.\<close>

definition Slice_compare :: "store \<Rightarrow> slice \<Rightarrow> slice \<Rightarrow> int option" where
  "Slice_compare m a b =
     do { let min_len = (ucast (if sl_size a < sl_size b then sl_size a else sl_size b) :: u32);
          r \<leftarrow> memcmp m (sl_data a) (sl_data b) (unat (scast min_len :: u64));
          Some (if r = 0
                then (if sl_size a < sl_size b then - 1
                      else if sl_size a > sl_size b then 1 else r)
                else r) }"

definition Slice_starts_with :: "store \<Rightarrow> slice \<Rightarrow> slice \<Rightarrow> bool option" where
  "Slice_starts_with m s x =
     (if sl_size x \<le> sl_size s
      then do { r \<leftarrow> memcmp m (sl_data s) (sl_data x) (unat (sl_size x)); Some (r = 0) }
      else Some False)"

definition Slice_ends_with :: "store \<Rightarrow> slice \<Rightarrow> slice \<Rightarrow> bool option" where
  "Slice_ends_with m s x =
     (if sl_size s < sl_size x then Some False
      else do { e \<leftarrow> ptr_add m (sl_data s) (uint (sl_size s));
                p \<leftarrow> ptr_add m e (- uint (sl_size x));
                r \<leftarrow> memcmp m p (sl_data x) (unat (sl_size x));
                Some (r = 0) })"

definition Slice_lt :: "store \<Rightarrow> slice \<Rightarrow> slice \<Rightarrow> bool option" where
  "Slice_lt m x y = do { r \<leftarrow> Slice_compare m x y; Some (r < 0) }"

definition Slice_gt :: "store \<Rightarrow> slice \<Rightarrow> slice \<Rightarrow> bool option" where
  "Slice_gt m x y = do { r \<leftarrow> Slice_compare m x y; Some (r > 0) }"

definition Slice_le :: "store \<Rightarrow> slice \<Rightarrow> slice \<Rightarrow> bool option" where
  "Slice_le m x y = do { r \<leftarrow> Slice_compare m x y; Some (r \<le> 0) }"

definition Slice_ge :: "store \<Rightarrow> slice \<Rightarrow> slice \<Rightarrow> bool option" where
  "Slice_ge m x y = do { r \<leftarrow> Slice_compare m x y; Some (r \<ge> 0) }"

definition Slice_eq :: "store \<Rightarrow> slice \<Rightarrow> slice \<Rightarrow> bool option" where
  "Slice_eq m x y =
     (if sl_size x = sl_size y
      then do { r \<leftarrow> memcmp m (sl_data x) (sl_data y) (unat (sl_size y)); Some (r = 0) }
      else Some False)"

definition Slice_ne :: "store \<Rightarrow> slice \<Rightarrow> slice \<Rightarrow> bool option" where
  "Slice_ne m x y = do { e \<leftarrow> Slice_eq m x y; Some (\<not> e) }"

section \<open>What a slice denotes\<close>

definition slice_bytes :: "store \<Rightarrow> slice \<Rightarrow> byte list option" where
  "slice_bytes m s = load_bytes m (sl_data s) (unat (sl_size s))"

lemma slice_bytes_length: "slice_bytes m s = Some bs \<Longrightarrow> length bs = unat (sl_size s)"
  unfolding slice_bytes_def by (rule load_bytes_length)

lemma slice_bytes_of_block:
  "blocks m b = Some (pre @ bs @ post) \<Longrightarrow> length bs < 2 ^ 64 \<Longrightarrow>
     slice_bytes m \<lparr>sl_data = Ptr b (length pre), sl_size = word_of_nat (length bs)\<rparr> = Some bs"
  by (simp add: slice_bytes_def unat_of_nat take_bit_nat_eq_self)

lemma slice_bytes_empty: "wf_store m \<Longrightarrow> slice_bytes m Slice_empty = Some []"
  by (simp add: slice_bytes_def Slice_empty_def wf_store_def)

section \<open>Byte comparison\<close>

definition order_sign :: "byte list \<Rightarrow> byte list \<Rightarrow> int" where
  "order_sign as bs = (if as < bs then - 1 else if as = bs then 0 else 1)"

lemma order_sign_simps [simp]:
  "order_sign as bs < 0 \<longleftrightarrow> as < bs" "0 < order_sign as bs \<longleftrightarrow> bs < as"
  "order_sign as bs \<le> 0 \<longleftrightarrow> as \<le> bs" "0 \<le> order_sign as bs \<longleftrightarrow> bs \<le> as"
  "order_sign as bs = 0 \<longleftrightarrow> as = bs"
  by (auto simp: order_sign_def)

lemma Nil_less_list_iff: "[] < bs \<longleftrightarrow> bs \<noteq> []" for bs :: "'a :: order list"
  by (cases bs) auto

lemma memcmp_bytes_eq_0: "length as = length bs \<Longrightarrow> memcmp_bytes as bs = 0 \<longleftrightarrow> as = bs"
  by (induction as bs rule: memcmp_bytes.induct) auto

text \<open>
  Comparing the common length first and the sizes second is the lexicographic order: the
  argument behind \<open>Slice::compare\<close>.
\<close>

lemma memcmp_then_size:
  fixes as bs :: "byte list"
  defines "r \<equiv> memcmp_bytes (take (min (length as) (length bs)) as)
                             (take (min (length as) (length bs)) bs)"
  shows "(if r = 0 then if length as < length bs then - 1
                        else if length bs < length as then 1 else r
          else r) = order_sign as bs"
  unfolding r_def
proof (induction as bs rule: memcmp_bytes.induct)
qed (auto simp: order_sign_def Nil_less_list_iff split: if_splits)

lemma memcmp_Some:
  "load_bytes m p n = Some as \<Longrightarrow> load_bytes m q n = Some bs \<Longrightarrow>
     memcmp m p q n = Some (memcmp_bytes as bs)"
  by (simp add: memcmp_def)

lemma slice_memcmp:
  assumes "slice_bytes m a = Some as" "slice_bytes m b = Some bs"
    and "n \<le> length as" "n \<le> length bs"
  shows "memcmp m (sl_data a) (sl_data b) n = Some (memcmp_bytes (take n as) (take n bs))"
proof -
  have "n \<le> unat (sl_size a)" "n \<le> unat (sl_size b)"
    using assms by (auto dest: slice_bytes_length)
  with assms(1,2) show ?thesis
    unfolding slice_bytes_def by (intro memcmp_Some) (auto intro: load_bytes_take)
qed

section \<open>The comparison operators\<close>

lemma Slice_compare_order:
  assumes a: "slice_bytes m a = Some as" and b: "slice_bytes m b = Some bs"
    and small: "min (length as) (length bs) < 2 ^ 31"
  shows "Slice_compare m a b = Some (order_sign as bs)"
proof -
  let ?w = "if sl_size a < sl_size b then sl_size a else sl_size b"
  let ?n = "min (length as) (length bs)"
  have len: "length as = unat (sl_size a)" "length bs = unat (sl_size b)"
    using a b by (auto dest: slice_bytes_length)
  have w: "unat ?w = ?n" by (auto simp: len word_less_nat_alt)
  with small have n: "unat (scast (ucast ?w :: u32) :: u64) = ?n"
    by (simp only: int_size_roundtrip)
  have mc: "memcmp m (sl_data a) (sl_data b) ?n = Some (memcmp_bytes (take ?n as) (take ?n bs))"
    by (rule slice_memcmp [OF a b]) auto
  have lt: "sl_size a < sl_size b \<longleftrightarrow> length as < length bs"
      "sl_size a > sl_size b \<longleftrightarrow> length bs < length as"
    by (simp_all add: len word_less_nat_alt)
  show ?thesis
    unfolding Slice_compare_def Let_def n mc Option.bind.bind_lunit
    unfolding lt memcmp_then_size ..
qed

lemma Slice_eq_bytes:
  assumes "slice_bytes m x = Some xs" "slice_bytes m y = Some ys"
  shows "Slice_eq m x y = Some (xs = ys)"
  using assms slice_memcmp [OF assms, of "length ys"]
  by (auto simp: Slice_eq_def memcmp_bytes_eq_0 word_unat_eq_iff dest!: slice_bytes_length)

lemma Slice_starts_with_prefix:
  assumes "slice_bytes m s = Some bs" "slice_bytes m x = Some xs"
  shows "Slice_starts_with m s x = Some (prefix xs bs)"
proof -
  have len: "length bs = unat (sl_size s)" "length xs = unat (sl_size x)"
    using assms by (auto dest: slice_bytes_length)
  show ?thesis
  proof (cases "length xs \<le> length bs")
    case True
    then have "memcmp m (sl_data s) (sl_data x) (length xs) =
        Some (memcmp_bytes (take (length xs) bs) xs)"
      using slice_memcmp [OF assms, of "length xs"] by simp
    moreover have "take (length xs) bs = xs \<longleftrightarrow> prefix xs bs"
      by (metis append_take_drop_id prefixI take_is_prefix append_eq_conv_conj prefix_def)
    ultimately show ?thesis
      using True by (simp add: Slice_starts_with_def word_le_nat_alt len memcmp_bytes_eq_0)
  next
    case False
    then show ?thesis
      using prefix_length_le [of xs bs]
      by (auto simp: Slice_starts_with_def word_le_nat_alt len)
  qed
qed

lemma Slice_ends_with_suffix:
  assumes s: "slice_bytes m s = Some bs" and x: "slice_bytes m x = Some xs"
  shows "Slice_ends_with m s x = Some (suffix xs bs)"
proof -
  have len: "length bs = unat (sl_size s)" "length xs = unat (sl_size x)"
    using assms by (auto dest: slice_bytes_length)
  show ?thesis
  proof (cases "length bs < length xs")
    case True
    then show ?thesis
      using suffix_length_le [of xs bs]
      by (auto simp: Slice_ends_with_def word_less_nat_alt len)
  next
    case False
    define k where "k = length bs - length xs"
    obtain e where e: "ptr_add m (sl_data s) (int (length bs)) = Some e"
      using load_bytes_drop [OF s [unfolded slice_bytes_def], of "length bs"] len by auto
    obtain p where p: "ptr_add m (sl_data s) (int k) = Some p"
        "load_bytes m p (unat (sl_size s) - k) = Some (drop k bs)"
      using load_bytes_drop [OF s [unfolded slice_bytes_def], of k] len by (auto simp: k_def)
    have "ptr_add m e (int k - int (length bs)) = Some p"
      by (rule ptr_add_diff_left [OF e p(1)])
    moreover have "memcmp m p (sl_data x) (length xs) = Some (memcmp_bytes (drop k bs) xs)"
      using p(2) x False by (intro memcmp_Some) (auto simp: slice_bytes_def len k_def)
    moreover have "drop k bs = xs \<longleftrightarrow> suffix xs bs"
      using suffix_drop [of k bs] by (auto simp: k_def suffix_def)
    ultimately show ?thesis
      using False e
      by (simp add: Slice_ends_with_def word_less_nat_alt len memcmp_bytes_eq_0 k_def
          flip: uint_nat)
  qed
qed

section \<open>The mutators\<close>

lemma Slice_remove_prefix_drop:
  assumes bs: "slice_bytes m s = Some bs" and n: "n \<le> sl_size s"
  shows "\<exists>t. Slice_remove_prefix pf m s n = Some t \<and> slice_bytes m t = Some (drop (unat n) bs)"
proof -
  have sub: "unat (sl_size s - n) = unat (sl_size s) - unat n" using n by (rule unat_sub)
  have n': "unat n \<le> unat (sl_size s)" using n by (simp add: word_le_nat_alt)
  obtain q where "ptr_add m (sl_data s) (uint n) = Some q"
      "load_bytes m q (unat (sl_size s) - unat n) = Some (drop (unat n) bs)"
    using load_bytes_drop [OF bs [unfolded slice_bytes_def] n'] by auto
  with n show ?thesis by (simp add: Slice_remove_prefix_def slice_bytes_def sub)
qed

lemma Slice_remove_suffix_take:
  assumes bs: "slice_bytes m s = Some bs" and n: "n \<le> sl_size s"
  shows "\<exists>t. Slice_remove_suffix pf s n = Some t \<and>
     slice_bytes m t = Some (take (length bs - unat n) bs)"
proof -
  have "unat (sl_size s - n) = unat (sl_size s) - unat n" using n by (rule unat_sub)
  moreover have "load_bytes m (sl_data s) (unat (sl_size s) - unat n) =
      Some (take (unat (sl_size s) - unat n) bs)"
    by (rule load_bytes_take [OF bs [unfolded slice_bytes_def]]) simp
  ultimately show ?thesis
    using n slice_bytes_length [OF bs] by (simp add: Slice_remove_suffix_def slice_bytes_def)
qed

lemma Slice_ToString_bytes:
  assumes "slice_bytes m s = Some bs"
  shows "Slice_ToString m s = Some bs"
  using assms slice_bytes_length [OF assms]
  by (cases "sl_size s = 0") (simp_all add: Slice_ToString_def slice_bytes_def)

lemma Slice_substr_drop:
  assumes bs: "slice_bytes m s = Some bs" and n: "n \<le> sl_size s"
  shows "Slice_substr pf m s n = Some (drop (unat n) bs)"
  using Slice_remove_prefix_drop [OF assms, of pf] n
  by (auto simp: Slice_remove_prefix_def Slice_substr_def slice_bytes_def bind_Some_iff)

section \<open>Properties\<close>

text \<open>
  C13: all comparisons of slices agree with one total order, the lexicographic order of their
  bytes as unsigned numbers, as long as the shorter slice is below 2 GiB; in particular
  \<open>compare\<close> returns 0 exactly when \<open>operator==\<close> holds.
\<close>

theorem slice_comparison_order:
  assumes "slice_bytes m x = Some xs" "slice_bytes m y = Some ys"
    and "min (length xs) (length ys) < 2 ^ 31"
  shows "Slice_compare m x y = Some (order_sign xs ys) \<and>
    Slice_lt m x y = Some (xs < ys) \<and> Slice_gt m x y = Some (ys < xs) \<and>
    Slice_le m x y = Some (xs \<le> ys) \<and> Slice_ge m x y = Some (ys \<le> xs) \<and>
    Slice_eq m x y = Some (xs = ys) \<and> Slice_ne m x y = Some (xs \<noteq> ys)"
  using Slice_compare_order [OF assms] Slice_eq_bytes [OF assms(1,2)]
  by (simp add: Slice_lt_def Slice_gt_def Slice_le_def Slice_ge_def Slice_ne_def)

theorem slice_comparison_order_witness:
  "Slice_lt (store_of [1, 255, 1, 2, 3])
     \<lparr>sl_data = Ptr 1 2, sl_size = 3\<rparr> \<lparr>sl_data = Ptr 1 0, sl_size = 2\<rparr> = Some True"
proof -
  have "slice_bytes (store_of [1, 255, 1, 2, 3]) \<lparr>sl_data = Ptr 1 2, sl_size = 3\<rparr> = Some [1, 2, 3]"
    "slice_bytes (store_of [1, 255, 1, 2, 3]) \<lparr>sl_data = Ptr 1 0, sl_size = 2\<rparr> = Some [1, 255]"
    by (simp_all add: slice_bytes_def)
  from slice_comparison_order [OF this] show ?thesis by simp
qed

text \<open>
  Above that bound \<open>compare\<close> is not a comparison: the length goes through an \<open>int\<close>, so two
  slices of 4 GiB compare equal whatever their bytes are, while \<open>operator==\<close> still tells them
  apart.
\<close>

lemma slice_compare_truncates:
  assumes "slice_bytes m x = Some xs" "slice_bytes m y = Some ys"
    and "length xs = 2 ^ 32" "length ys = 2 ^ 32"
  shows "Slice_compare m x y = Some 0 \<and> Slice_eq m x y = Some (xs = ys)"
proof
  have "unat (sl_size x) = 2 ^ 32" "unat (sl_size y) = 2 ^ 32"
    using assms by (auto dest!: slice_bytes_length)
  then have "sl_size x = 2 ^ 32" "sl_size y = 2 ^ 32" by (simp_all add: word_unat_eq_iff)
  moreover have "memcmp m (sl_data x) (sl_data y) 0 =
      Some (memcmp_bytes (take 0 xs) (take 0 ys))"
    by (rule slice_memcmp [OF assms(1,2)]) auto
  ultimately show "Slice_compare m x y = Some 0" by (simp add: Slice_compare_def Let_def)
qed (rule Slice_eq_bytes [OF assms(1,2)])

definition two_blocks :: "byte list \<Rightarrow> byte list \<Rightarrow> store" where
  "two_blocks xs ys = \<lparr>blocks = [0 \<mapsto> [0], 1 \<mapsto> xs, 2 \<mapsto> ys], next_block = 3, fill = 0\<rparr>"

lemma slice_bytes_two_blocks:
  "length xs < 2 ^ 64 \<Longrightarrow> length ys < 2 ^ 64 \<Longrightarrow>
   slice_bytes (two_blocks xs ys) (Slice_new (Ptr 1 0) (word_of_nat (length xs))) = Some xs \<and>
   slice_bytes (two_blocks xs ys) (Slice_new (Ptr 2 0) (word_of_nat (length ys))) = Some ys"
  by (simp add: slice_bytes_def Slice_new_def two_blocks_def unat_of_nat take_bit_nat_eq_self)

lemma slice_compare_truncates_witness:
  "\<exists>m x y. Slice_compare m x y = Some 0 \<and> Slice_eq m x y = Some False"
proof -
  obtain n :: nat where n: "n = 2 ^ 32" by blast
  then have pos: "0 < n" and small: "n < 2 ^ 64" by simp_all
  define xs ys :: "byte list" where "xs = replicate n 0" and "ys = replicate n 1"
  let ?m = "two_blocks xs ys"
  have len: "length xs = n" "length ys = n" by (simp_all add: xs_def ys_def)
  have "xs \<noteq> ys" using pos by (auto simp: xs_def ys_def replicate_eq_replicate)
  moreover have "slice_bytes ?m (Slice_new (Ptr 1 0) (word_of_nat n)) = Some xs"
      "slice_bytes ?m (Slice_new (Ptr 2 0) (word_of_nat n)) = Some ys"
    using slice_bytes_two_blocks [of xs ys] small unfolding len by simp_all
  note slice_compare_truncates [OF this, unfolded len, OF n n]
  ultimately show ?thesis by metis
qed

text \<open>
  \<open>starts_with\<close> and \<open>ends_with\<close> decide whether one byte sequence is a prefix, or a suffix, of
  the other, for slices of every size, and never read outside either slice.
\<close>

lemma slice_starts_ends_with:
  assumes "slice_bytes m s = Some bs" "slice_bytes m x = Some xs"
  shows "Slice_starts_with m s x = Some (prefix xs bs) \<and>
         Slice_ends_with m s x = Some (suffix xs bs)"
  using Slice_starts_with_prefix [OF assms] Slice_ends_with_suffix [OF assms] by simp

lemma slice_starts_ends_with_witness:
  "Slice_starts_with (store_of [7, 8, 9, 7, 8])
     \<lparr>sl_data = Ptr 1 0, sl_size = 3\<rparr> \<lparr>sl_data = Ptr 1 3, sl_size = 2\<rparr> = Some True"
proof -
  have "slice_bytes (store_of [7, 8, 9, 7, 8]) \<lparr>sl_data = Ptr 1 0, sl_size = 3\<rparr> = Some [7, 8, 9]"
    "slice_bytes (store_of [7, 8, 9, 7, 8]) \<lparr>sl_data = Ptr 1 3, sl_size = 2\<rparr> = Some [7, 8]"
    by (simp_all add: slice_bytes_def)
  from slice_starts_ends_with [OF this] show ?thesis by simp
qed

text \<open>
  C27: within the size of a slice, \<open>remove_prefix\<close>, \<open>remove_suffix\<close>, \<open>substr\<close> and \<open>ToString\<close> are
  \<open>drop\<close>, \<open>take\<close>, \<open>drop\<close> and the identity on the bytes the slice denotes, in debug and in
  release builds.
\<close>

theorem slice_shrink_refines:
  assumes bs: "slice_bytes m s = Some bs" and n: "n \<le> sl_size s"
  shows "(\<exists>t. Slice_remove_prefix pf m s n = Some t \<and> slice_bytes m t = Some (drop (unat n) bs))
    \<and> (\<exists>t. Slice_remove_suffix pf s n = Some t \<and>
           slice_bytes m t = Some (take (length bs - unat n) bs))
    \<and> Slice_substr pf m s n = Some (drop (unat n) bs)
    \<and> Slice_ToString m s = Some bs"
  using Slice_remove_prefix_drop [OF assms] Slice_remove_suffix_take [OF assms]
    Slice_substr_drop [OF assms] Slice_ToString_bytes [OF bs]
  by blast

theorem slice_shrink_refines_witness:
  "Slice_substr \<lparr>kLittleEndian = True, NDEBUG = True\<rparr> (store_of [5, 6, 7, 8])
     \<lparr>sl_data = Ptr 1 1, sl_size = 3\<rparr> 2 = Some [8]"
proof -
  have "slice_bytes (store_of [5, 6, 7, 8]) \<lparr>sl_data = Ptr 1 1, sl_size = 3\<rparr> = Some [6, 7, 8]"
    by (simp add: slice_bytes_def)
  from slice_shrink_refines [OF this, of 2] show ?thesis by simp
qed

text \<open>
  \<open>operator[]\<close> on an index between \<open>-size()\<close> and \<open>size() - 1\<close>, the range its comment
  requires, reads the byte counted from the start, or from the end for a negative index.
\<close>

lemma slice_index_nth:
  assumes bs: "slice_bytes m s = Some bs" and size: "length bs < 2 ^ 63"
    and range: "- int (length bs) \<le> sint n" "sint n < int (length bs)"
  shows "Slice_index pf m s n =
    Some (bs ! nat (if sint n < 0 then sint n + int (length bs) else sint n))"
proof -
  define k where "k = (if sint n < 0 then sint n + int (length bs) else sint n)"
  define w where "w = (if n <s 0 then n + sl_size s else n)"
  have len: "uint (sl_size s) = int (length bs)" using slice_bytes_length [OF bs] by simp
  then have size': "sint (sl_size s) = int (length bs)" using size by (simp add: sint_small)
  have pos: "0 \<le> k" "k < int (length bs)" using range by (auto simp: k_def)
  have k: "sint w = k"
  proof (cases "sint n < 0")
    case True
    then have "sint (n + sl_size s) = sint n + sint (sl_size s)"
      using range size by (intro sint_add_small) (simp_all add: size')
    with True show ?thesis by (simp add: w_def k_def word_sless_alt size')
  qed (simp add: w_def k_def word_sless_alt)
  have "0 \<le>s w" using pos by (simp add: word_sle_eq k)
  moreover have "w < sl_size s"
    using pos by (simp add: word_less_def len uint_sint_nonneg k)
  moreover have "nat k < unat (sl_size s)" using pos slice_bytes_length [OF bs] by linarith
  with load_bytes_nth [OF bs [unfolded slice_bytes_def], of "nat k"] pos(1)
  obtain p where "ptr_add m (sl_data s) k = Some p" "load_byte m p = Some (bs ! nat k)" by auto
  ultimately show ?thesis by (simp add: Slice_index_def k flip: w_def k_def)
qed

lemma slice_index_nth_witness:
  "Slice_index \<lparr>kLittleEndian = True, NDEBUG = False\<rparr> (store_of [5, 6, 7, 8])
     \<lparr>sl_data = Ptr 1 1, sl_size = 3\<rparr> (- 1) = Some 8"
proof -
  have "slice_bytes (store_of [5, 6, 7, 8]) \<lparr>sl_data = Ptr 1 1, sl_size = 3\<rparr> = Some [6, 7, 8]"
    by (simp add: slice_bytes_def)
  from slice_index_nth [OF this, of "- 1"] show ?thesis by simp
qed

section \<open>Sequences of mutators\<close>

text \<open>A call of a mutator that returns.\<close>

inductive slice_step :: "platform \<Rightarrow> store \<Rightarrow> slice \<Rightarrow> slice \<Rightarrow> bool" for pf m where
  step_clear: "slice_step pf m s (Slice_clear s)"
| step_prefix: "Slice_remove_prefix pf m s n = Some t \<Longrightarrow> slice_step pf m s t"
| step_suffix: "Slice_remove_suffix pf s n = Some t \<Longrightarrow> slice_step pf m s t"

inductive_cases slice_stepE: "slice_step pf m s t"

lemma slice_step_inside:
  assumes "slice_step pf m s t" "wf_store m" "slice_bytes m s = Some bs" "\<not> NDEBUG pf"
  shows "\<exists>bs'. slice_bytes m t = Some bs' \<and> sublist bs' bs"
  using assms(1)
proof (rule slice_stepE)
  assume "t = Slice_clear s"
  moreover have "Slice_clear s = Slice_empty" by (simp add: Slice_clear_def Slice_empty_def)
  ultimately show ?thesis using slice_bytes_empty [OF assms(2)] by simp
next
  fix n
  assume t: "Slice_remove_prefix pf m s n = Some t"
  then have "n \<le> sl_size s" using assms(4) by (auto simp: Slice_remove_prefix_def c_assert_def split: if_splits)
  with t Slice_remove_prefix_drop [OF assms(3) this, of pf] show ?thesis by auto
next
  fix n
  assume t: "Slice_remove_suffix pf s n = Some t"
  then have "n \<le> sl_size s" using assms(4) by (auto simp: Slice_remove_suffix_def c_assert_def split: if_splits)
  with t Slice_remove_suffix_take [OF assms(3) this, of pf] show ?thesis by auto
qed

text \<open>
  C14: in a debug build a slice stays inside the bytes that it once denoted: after any sequence of
  calls of \<open>clear\<close>, \<open>remove_prefix\<close> and \<open>remove_suffix\<close> that return, whatever their arguments, it is
  valid, denotes a contiguous part of those bytes and has not grown.
\<close>

theorem slice_ops_inside:
  assumes "wf_store m" "slice_bytes m s = Some bs" "\<not> NDEBUG pf" "(slice_step pf m)\<^sup>*\<^sup>* s t"
  shows "\<exists>bs'. load_bytes m (Slice_data t) (unat (Slice_size t)) = Some bs' \<and> sublist bs' bs \<and>
    Slice_size t \<le> Slice_size s"
proof -
  from assms(4) have "\<exists>bs'. slice_bytes m t = Some bs' \<and> sublist bs' bs"
  proof (induction rule: rtranclp_induct)
    case base
    with assms(2) show ?case by auto
  next
    case (step t u)
    then obtain bs1 where 1: "slice_bytes m t = Some bs1" "sublist bs1 bs" by blast
    obtain bs2 where "slice_bytes m u = Some bs2" "sublist bs2 bs1"
      using slice_step_inside [OF step.hyps(2) assms(1) 1(1) assms(3)] by blast
    with 1(2) sublist_order.order.trans [of bs2 bs1 bs] show ?case by auto
  qed
  then obtain bs' where bs': "slice_bytes m t = Some bs'" "sublist bs' bs" by blast
  then have "unat (sl_size t) \<le> unat (sl_size s)"
    using sublist_length_le [OF bs'(2)] slice_bytes_length [OF bs'(1)] slice_bytes_length [OF assms(2)] by simp
  with bs' show ?thesis
    by (auto simp: slice_bytes_def Slice_data_def Slice_size_def word_le_nat_alt)
qed

theorem slice_ops_inside_witness:
  "\<exists>t bs. (slice_step \<lparr>kLittleEndian = True, NDEBUG = False\<rparr> (store_of [5, 6, 7, 8]))\<^sup>*\<^sup>*
       \<lparr>sl_data = Ptr 1 0, sl_size = 4\<rparr> t \<and> Slice_size t = 2 \<and>
     load_bytes (store_of [5, 6, 7, 8]) (Slice_data t) 2 = Some bs \<and> sublist bs [5, 6, 7, 8]"
proof -
  let ?pf = "\<lparr>kLittleEndian = True, NDEBUG = False\<rparr>" and ?m = "store_of [5, 6, 7, 8]"
  let ?s = "\<lparr>sl_data = Ptr 1 0, sl_size = 4\<rparr>" and ?t = "\<lparr>sl_data = Ptr 1 1, sl_size = 3\<rparr>"
  let ?u = "\<lparr>sl_data = Ptr 1 1, sl_size = 2\<rparr>"
  have "slice_step ?pf ?m ?s ?t"
    by (rule step_prefix [where n = 1]) (simp add: Slice_remove_prefix_def c_assert_def)
  moreover have "slice_step ?pf ?m ?t ?u"
    by (rule step_suffix [where n = 1]) (simp add: Slice_remove_suffix_def c_assert_def)
  ultimately have steps: "(slice_step ?pf ?m)\<^sup>*\<^sup>* ?s ?u" by (blast intro: converse_rtranclp_into_rtranclp)
  have "slice_bytes ?m ?s = Some [5, 6, 7, 8]" "\<not> NDEBUG ?pf" by (simp_all add: slice_bytes_def)
  from slice_ops_inside [OF wf_store_of this steps] steps show ?thesis
    by (intro exI [of _ ?u]) (auto simp: Slice_size_def)
qed

end
