(* ===== verification/C2_Codec.thy ===== *)
theory C2_Codec
  imports C2_Slice
begin

text \<open>
  The interface of \<open>c2_coding.h\<close>: Put routines append an encoding to a string, Get routines parse
  one from the front of a slice and advance it, and the fixed-width ones decode at a pointer.
  Each interface is a locale; what a client may conclude is proved once inside it: streams of
  records read back, no encoding is a prefix of another, arrays of fixed-width records are
  randomly accessible. The theories of the routines interpret the locales.

  \<open>den m v\<close> is the abstract value that the argument \<open>v\<close> of a Put routine, or the result of a Get
  routine, stands for in a store: an integer stands for itself, a slice for its bytes.
\<close>

section \<open>Encoders\<close>

fun put_all :: "(store \<Rightarrow> byte list \<Rightarrow> 'v \<Rightarrow> byte list option) \<Rightarrow> store \<Rightarrow> byte list \<Rightarrow> 'v list \<Rightarrow>
    byte list option" where
  "put_all put m dst [] = Some dst"
| "put_all put m dst (v # vs) = do { dst' \<leftarrow> put m dst v; put_all put m dst' vs }"

locale encoder =
  fixes put :: "store \<Rightarrow> byte list \<Rightarrow> 'v \<Rightarrow> byte list option"
    and den :: "store \<Rightarrow> 'v \<Rightarrow> 'a option"
    and valid :: "'a \<Rightarrow> bool"
    and enc :: "'a \<Rightarrow> byte list"
  assumes put_enc: "den m v = Some a \<Longrightarrow> valid a \<Longrightarrow> put m dst v = Some (dst @ enc a)"
begin

lemma put_all_enc:
  "list_all2 (\<lambda>v a. den m v = Some a) vs as \<Longrightarrow> list_all valid as \<Longrightarrow>
     put_all put m dst vs = Some (dst @ concat (map enc as))"
  by (induction vs as arbitrary: dst rule: list_all2_induct) (auto simp: put_enc)

end

section \<open>Self-delimiting encodings\<close>

text \<open>
  Reading up to \<open>n\<close> records: stops at the first one the routine refuses, and returns what was
  read with what is left of the input.
\<close>

fun get_all :: "(store \<Rightarrow> slice \<Rightarrow> 'v \<Rightarrow> (bool \<times> slice \<times> 'v) option) \<Rightarrow> 'v \<Rightarrow> store \<Rightarrow> slice \<Rightarrow> nat \<Rightarrow>
    ('v list \<times> slice) option" where
  "get_all get v0 m s 0 = Some ([], s)"
| "get_all get v0 m s (Suc n) =
     do { (ok, s', v) \<leftarrow> get m s v0;
          if ok then do { (vs, t) \<leftarrow> get_all get v0 m s' n; Some (v # vs, t) }
          else Some ([], s') }"

locale codec = encoder +
  fixes get :: "store \<Rightarrow> slice \<Rightarrow> 'v \<Rightarrow> (bool \<times> slice \<times> 'v) option"
  assumes get_enc: "slice_bytes m s = Some (enc a @ rest) \<Longrightarrow> valid a \<Longrightarrow>
      \<exists>s' v. get m s v0 = Some (True, s', v) \<and> den m v = Some a \<and> slice_bytes m s' = Some rest"
    and enc_size: "valid a \<Longrightarrow> length (enc a) < 2 ^ 64"
begin

lemma get_all_enc:
  "slice_bytes m s = Some (concat (map enc as) @ rest) \<Longrightarrow> list_all valid as \<Longrightarrow>
     \<exists>vs s'. get_all get v0 m s (length as) = Some (vs, s') \<and>
       list_all2 (\<lambda>v a. den m v = Some a) vs as \<and> slice_bytes m s' = Some rest"
proof (induction as arbitrary: s)
  case Nil
  then show ?case by simp
next
  case (Cons a as)
  then obtain s1 v where 1: "get m s v0 = Some (True, s1, v)" "den m v = Some a"
      "slice_bytes m s1 = Some (concat (map enc as) @ rest)"
    using get_enc [of m s a "concat (map enc as) @ rest" v0] by auto
  moreover obtain vs s' where "get_all get v0 m s1 (length as) = Some (vs, s')"
      "list_all2 (\<lambda>v a. den m v = Some a) vs as" "slice_bytes m s' = Some rest"
    using Cons.IH [OF 1(3)] Cons.prems by auto
  ultimately show ?case by auto
qed

lemma enc_prefix_free:
  assumes "valid a" "valid b" "prefix (enc a) (enc b)"
  shows "a = b"
proof -
  from assms(3) obtain r where r: "enc b = enc a @ r" by (auto elim: prefixE)
  obtain m s where s: "slice_bytes m s = Some (enc b)"
    using slice_bytes_of_block [of "store_of (enc b)" 1 "[]" "enc b" "[]"] enc_size [OF assms(2)]
    by auto
  then have "slice_bytes m s = Some (enc b @ [])" "slice_bytes m s = Some (enc a @ r)"
    by (simp_all add: r)
  with get_enc [of m s b "[]" undefined] get_enc [of m s a r undefined] assms(1,2)
  show ?thesis by auto
qed

lemma enc_inj: "valid a \<Longrightarrow> valid b \<Longrightarrow> enc a = enc b \<Longrightarrow> a = b"
  by (rule enc_prefix_free) auto

end

section \<open>Fixed-width encodings\<close>

locale fixed_codec = encoder put "\<lambda>m. Some" "\<lambda>v. True" enc
  for put :: "store \<Rightarrow> byte list \<Rightarrow> 'v \<Rightarrow> byte list option" and enc :: "'v \<Rightarrow> byte list" +
  fixes dec :: "store \<Rightarrow> ptr \<Rightarrow> 'v option" and width :: nat
  assumes width: "length (enc v) = width"
    and dec_enc: "load_bytes m p width = Some (enc v) \<Longrightarrow> dec m p = Some v"
begin

lemma length_array: "length (concat (map enc vs)) = width * length vs"
  by (induction vs) (auto simp: width)

lemma dec_nth:
  assumes "load_bytes m p n = Some (concat (map enc vs))" "i < length vs"
  shows "\<exists>q. ptr_add m p (int (width * i)) = Some q \<and> dec m q = Some (vs ! i)"
proof -
  let ?pre = "concat (map enc (take i vs))" and ?post = "concat (map enc (drop (Suc i) vs))"
  have "vs = take i vs @ vs ! i # drop (Suc i) vs" using assms(2) by (rule id_take_nth_drop)
  then have "concat (map enc vs) = concat (map enc (take i vs @ vs ! i # drop (Suc i) vs))"
    by (rule arg_cong)
  then have split: "concat (map enc vs) = ?pre @ (enc (vs ! i) @ ?post)" by simp
  have len: "length ?pre = width * i"
    using length_array [of "take i vs"] assms(2) by simp
  obtain q where q: "ptr_add m p (int (width * i)) = Some q"
      "load_bytes m q (length (enc (vs ! i) @ ?post)) = Some (enc (vs ! i) @ ?post)"
    using load_bytes_append [OF assms(1) [unfolded split]] unfolding len by blast
  with load_bytes_append [OF q(2)] have "load_bytes m q width = Some (enc (vs ! i))"
    by (auto simp: width)
  with q(1) show ?thesis by (auto intro: dec_enc)
qed

lemma array_roundtrip:
  assumes out: "put_all put m [] vs = Some out" and ld: "load_bytes m' p n = Some out"
    and i: "i < length vs"
  shows "\<exists>q. ptr_add m' p (int (width * i)) = Some q \<and> dec m' q = Some (vs ! i)"
proof -
  have "out = concat (map enc vs)"
    using out put_all_enc [of vs vs m "[]"] by (simp add: list.rel_refl list_all_iff)
  with ld i show ?thesis using dec_nth by blast
qed

end

end
