(* ===== verification/C2_Varint.thy ===== *)
theory C2_Varint
  imports C2_Codec
begin

text \<open>
  The variable-length integers of \<open>c2_coding.h\<close> and \<open>c2_coding.cc\<close>: seven bits a byte, least
  significant group first, the top bit set on every byte but the last.

  \<open>varint_bytes\<close> and \<open>read_varint\<close> are the specification, on natural numbers and byte lists; the
  pointer routines, whose loops and branches follow the code, are proved equal to them, faults
  included.
\<close>

section \<open>Encoders\<close>

text \<open>\<open>EncodeVarint32\<close> unrolls the groups; \<open>v | B\<close> converts to a byte by dropping the upper bits.\<close>

definition EncodeVarint32 :: "store \<Rightarrow> ptr \<Rightarrow> u32 \<Rightarrow> (store \<times> ptr) option" where
  "EncodeVarint32 m p v =
     (let B = 128 in
      if v < push_bit 7 1 then put_byte m p (ucast v)
      else if v < push_bit 14 1 then do {
        (m, p) \<leftarrow> put_byte m p (ucast (v OR B));
        put_byte m p (ucast (drop_bit 7 v)) }
      else if v < push_bit 21 1 then do {
        (m, p) \<leftarrow> put_byte m p (ucast (v OR B));
        (m, p) \<leftarrow> put_byte m p (ucast (drop_bit 7 v OR B));
        put_byte m p (ucast (drop_bit 14 v)) }
      else if v < push_bit 28 1 then do {
        (m, p) \<leftarrow> put_byte m p (ucast (v OR B));
        (m, p) \<leftarrow> put_byte m p (ucast (drop_bit 7 v OR B));
        (m, p) \<leftarrow> put_byte m p (ucast (drop_bit 14 v OR B));
        put_byte m p (ucast (drop_bit 21 v)) }
      else do {
        (m, p) \<leftarrow> put_byte m p (ucast (v OR B));
        (m, p) \<leftarrow> put_byte m p (ucast (drop_bit 7 v OR B));
        (m, p) \<leftarrow> put_byte m p (ucast (drop_bit 14 v OR B));
        (m, p) \<leftarrow> put_byte m p (ucast (drop_bit 21 v OR B));
        put_byte m p (ucast (drop_bit 28 v)) })"

lemma drop_bit_7_less: "128 \<le> v \<Longrightarrow> unat (drop_bit 7 v) < unat v" for v :: u64
  by (simp add: unat_drop_bit_eq drop_bit_eq_div [where 'a = nat] word_le_nat_alt)

function EncodeVarint64 :: "store \<Rightarrow> ptr \<Rightarrow> u64 \<Rightarrow> (store \<times> ptr) option" where
  "EncodeVarint64 m p v =
     (let B = 128 in
      if v \<ge> B then do {
        (m, p) \<leftarrow> put_byte m p (ucast ((v AND (B - 1)) OR B));
        EncodeVarint64 m p (drop_bit 7 v) }
      else put_byte m p (ucast v))"
  by pat_completeness auto
termination
  by (relation "measure (\<lambda>(m, p, v). unat v)") (auto intro: drop_bit_7_less)

text \<open>\<open>PutVarint32\<close> and \<open>PutVarint64\<close> encode into a local array of 5, or 10, bytes and append it.\<close>

definition PutVarint32 :: "store \<Rightarrow> byte list \<Rightarrow> u32 \<Rightarrow> byte list option" where
  "PutVarint32 m dst v =
     do { let (m, buf) = alloc m 5;
          (m, p) \<leftarrow> EncodeVarint32 m buf v;
          n \<leftarrow> ptr_diff p buf;
          bs \<leftarrow> load_bytes m buf (nat n);
          Some (dst @ bs) }"

definition PutVarint64 :: "store \<Rightarrow> byte list \<Rightarrow> u64 \<Rightarrow> byte list option" where
  "PutVarint64 m dst v =
     do { let (m, buf) = alloc m 10;
          (m, p) \<leftarrow> EncodeVarint64 m buf v;
          n \<leftarrow> ptr_diff p buf;
          bs \<leftarrow> load_bytes m buf (nat n);
          Some (dst @ bs) }"

function VarintLength_from :: "u64 \<Rightarrow> int \<Rightarrow> int" where
  "VarintLength_from v len =
     (if v \<ge> 128 then VarintLength_from (drop_bit 7 v) (len + 1) else len)"
  by pat_completeness auto
termination
  by (relation "measure (\<lambda>(v, len). unat v)") (auto intro: drop_bit_7_less)

definition VarintLength :: "u64 \<Rightarrow> int" where
  "VarintLength v = VarintLength_from v 1"

section \<open>Decoders\<close>

text \<open>
  The result is the returned pointer (\<open>Null\<close> for failure) and \<open>*value\<close>, which a failing call
  leaves as it was.
\<close>

lemma shift_add_7: "shift \<le> 63 \<Longrightarrow> unat (shift + 7) = unat shift + 7" for shift :: u32
  by (simp add: unat_word_ariths word_le_nat_alt)

function GetVarint32_loop :: "store \<Rightarrow> ptr \<Rightarrow> ptr \<Rightarrow> u32 \<Rightarrow> u32 \<Rightarrow> u32 \<Rightarrow> (ptr \<times> u32) option" where
  "GetVarint32_loop m p limit shift result value =
     (if shift \<le> 28 then do {
        more \<leftarrow> ptr_less p limit;
        if more then do {
          c \<leftarrow> load_byte m p;
          let byte = (ucast c :: u32);
          p \<leftarrow> ptr_add m p 1;
          if byte AND 128 \<noteq> 0
          then GetVarint32_loop m p limit (shift + 7)
                 (result OR push_bit (unat shift) (byte AND 127)) value
          else Some (p, result OR push_bit (unat shift) byte) }
        else Some (Null, value) }
      else Some (Null, value))"
  by pat_completeness auto
termination
  by (relation "measure (\<lambda>(m, p, limit, shift, result, value). 100 - unat shift)")
    (auto simp: shift_add_7 word_le_nat_alt)

definition GetVarint32PtrFallback :: "store \<Rightarrow> ptr \<Rightarrow> ptr \<Rightarrow> u32 \<Rightarrow> (ptr \<times> u32) option" where
  "GetVarint32PtrFallback m p limit value = GetVarint32_loop m p limit 0 0 value"

definition GetVarint32Ptr :: "store \<Rightarrow> ptr \<Rightarrow> ptr \<Rightarrow> u32 \<Rightarrow> (ptr \<times> u32) option" where
  "GetVarint32Ptr m p limit value =
     do { more \<leftarrow> ptr_less p limit;
          if more then do {
            c \<leftarrow> load_byte m p;
            let result = (ucast c :: u32);
            if result AND 128 = 0
            then do { q \<leftarrow> ptr_add m p 1; Some (q, result) }
            else GetVarint32PtrFallback m p limit value }
          else GetVarint32PtrFallback m p limit value }"

function GetVarint64_loop :: "store \<Rightarrow> ptr \<Rightarrow> ptr \<Rightarrow> u32 \<Rightarrow> u64 \<Rightarrow> u64 \<Rightarrow> (ptr \<times> u64) option" where
  "GetVarint64_loop m p limit shift result value =
     (if shift \<le> 63 then do {
        more \<leftarrow> ptr_less p limit;
        if more then do {
          c \<leftarrow> load_byte m p;
          let byte = (ucast c :: u64);
          p \<leftarrow> ptr_add m p 1;
          if byte AND 128 \<noteq> 0
          then GetVarint64_loop m p limit (shift + 7)
                 (result OR push_bit (unat shift) (byte AND 127)) value
          else Some (p, result OR push_bit (unat shift) byte) }
        else Some (Null, value) }
      else Some (Null, value))"
  by pat_completeness auto
termination
  by (relation "measure (\<lambda>(m, p, limit, shift, result, value). 100 - unat shift)")
    (auto simp: shift_add_7 word_le_nat_alt)

definition GetVarint64Ptr :: "store \<Rightarrow> ptr \<Rightarrow> ptr \<Rightarrow> u64 \<Rightarrow> (ptr \<times> u64) option" where
  "GetVarint64Ptr m p limit value = GetVarint64_loop m p limit 0 0 value"

text \<open>The slice routines return their flag with the new \<open>*input\<close> and \<open>*value\<close>.\<close>

definition GetVarint32 :: "store \<Rightarrow> slice \<Rightarrow> u32 \<Rightarrow> (bool \<times> slice \<times> u32) option" where
  "GetVarint32 m input value =
     do { let p = sl_data input;
          limit \<leftarrow> ptr_add m p (uint (sl_size input));
          (q, value) \<leftarrow> GetVarint32Ptr m p limit value;
          if q = Null then Some (False, input, value)
          else do { n \<leftarrow> ptr_diff limit q;
                    Some (True, Slice_new q (word_of_int n), value) } }"

definition GetVarint64 :: "store \<Rightarrow> slice \<Rightarrow> u64 \<Rightarrow> (bool \<times> slice \<times> u64) option" where
  "GetVarint64 m input value =
     do { let p = sl_data input;
          limit \<leftarrow> ptr_add m p (uint (sl_size input));
          (q, value) \<leftarrow> GetVarint64Ptr m p limit value;
          if q = Null then Some (False, input, value)
          else do { n \<leftarrow> ptr_diff limit q;
                    Some (True, Slice_new q (word_of_int n), value) } }"

declare EncodeVarint64.simps [simp del] VarintLength_from.simps [simp del]
  GetVarint32_loop.simps [simp del] GetVarint64_loop.simps [simp del]

section \<open>Specification\<close>

fun varint_bytes :: "nat \<Rightarrow> byte list" where
  "varint_bytes n =
     (if n < 128 then [word_of_nat n] else word_of_nat (n mod 128 + 128) # varint_bytes (n div 128))"

text \<open>
  \<open>read_varint k bs\<close> looks at no more than \<open>k\<close> bytes: the number and how many bytes it took, or
  \<open>None\<close> if none of them ends it.
\<close>

fun read_varint :: "nat \<Rightarrow> byte list \<Rightarrow> (nat \<times> nat) option" where
  "read_varint 0 bs = None"
| "read_varint (Suc k) [] = None"
| "read_varint (Suc k) (b # bs) =
     (if unat b < 128 then Some (unat b, 1)
      else map_option (\<lambda>(v, n). (unat b - 128 + 128 * v, Suc n)) (read_varint k bs))"

declare varint_bytes.simps [simp del]

lemma read_varint_numeral [simp]:
  "read_varint (numeral k) [] = None"
  "read_varint (numeral k) (b # bs) =
     (if unat b < 128 then Some (unat b, 1)
      else map_option (\<lambda>(v, n). (unat b - 128 + 128 * v, Suc n)) (read_varint (pred_numeral k) bs))"
  by (simp_all add: numeral_eq_Suc)

section \<open>The encoders write the specified bytes\<close>

lemma bit_128: "bit (128 :: 'a::len word) n \<longleftrightarrow> n = 7 \<and> n < LENGTH('a)"
proof -
  have "(128 :: 'a word) = 2 ^ 7" by simp
  then show ?thesis by (auto simp only: bit_exp_iff possible_bit_word)
qed

lemma bit_127: "bit (127 :: 'a::len word) n \<longleftrightarrow> n < 7 \<and> n < LENGTH('a)"
proof -
  have "(127 :: 'a word) = mask 7" by (simp add: mask_eq_exp_minus_1)
  then show ?thesis by (auto simp only: bit_mask_iff possible_bit_word)
qed

lemma unat_128: "8 \<le> LENGTH('a) \<Longrightarrow> unat (128 :: 'a::len word) = 128"
  using power_increasing [of 8 "LENGTH('a)" "2::nat"]
  by (simp add: take_bit_nat_eq_self)

lemma group_byte: "(word_of_nat (a mod 128 + 128) :: byte) = take_bit 7 (word_of_nat a) OR 128"
proof -
  have "(word_of_nat (a mod 128 + 128) :: byte) = word_of_nat (a mod 128) OR 128"
    using or_push_bit_nat [of "a mod 128" 7 1, where 'a = 8] by (simp add: push_bit_eq_mult)
  moreover have "(word_of_nat (a mod 128) :: byte) = take_bit 7 (word_of_nat a)"
  proof -
    have "unat (take_bit 7 (word_of_nat a :: byte)) = take_bit 7 a"
      by (simp only: unsigned_take_bit_eq unsigned_of_nat take_bit_take_bit) simp
    also have "\<dots> = unat (word_of_nat (a mod 128) :: byte)"
      by (simp add: unsigned_of_nat take_bit_eq_mod)
    finally show ?thesis by (simp only: word_unat_eq_iff)
  qed
  ultimately show ?thesis by simp
qed

lemma continuation_byte:
  fixes v :: "'a::len word"
  assumes "8 \<le> LENGTH('a)"
  shows "(ucast (v OR 128) :: byte) = word_of_nat (unat v mod 128 + 128)"
    and "(ucast (v AND 127 OR 128) :: byte) = word_of_nat (unat v mod 128 + 128)"
  unfolding group_byte of_nat_unat using assms
  by (auto intro!: bit_word_eqI simp only: bit_or_iff bit_and_iff bit_unsigned_iff
      bit_take_bit_iff bit_128 bit_127 possible_bit_word dest: bit_imp_possible_bit) simp_all

lemma varint_bytes_nonempty [simp]: "varint_bytes n \<noteq> []"
  by (subst varint_bytes.simps) simp

lemma less_128_iff: "8 \<le> LENGTH('a) \<Longrightarrow> v < 128 \<longleftrightarrow> unat v < 128" for v :: "'a::len word"
  by (simp only: word_less_nat_alt unat_128)

lemma unat_drop_bit_7: "unat (drop_bit 7 v) = unat v div 128" for v :: "'a::len word"
  by (simp only: unat_drop_bit_eq drop_bit_eq_div [where 'a = nat]) simp

lemma varint_bytes_step:
  fixes v :: "'a::len word"
  assumes "8 \<le> LENGTH('a)" "\<not> v < 128"
  shows "varint_bytes (unat v) = ucast (v OR 128) # varint_bytes (unat (drop_bit 7 v))"
  using assms(2)
  by (subst varint_bytes.simps)
    (simp only: less_128_iff [OF assms(1)] continuation_byte [OF assms(1)] unat_drop_bit_7 if_False)

lemma varint_bytes_last:
  "8 \<le> LENGTH('a) \<Longrightarrow> v < 128 \<Longrightarrow> varint_bytes (unat v) = [ucast v]" for v :: "'a::len word"
  by (subst varint_bytes.simps) (simp only: less_128_iff if_True of_nat_unat)

lemma EncodeVarint64_put: "EncodeVarint64 m p v = put_bytes m p (varint_bytes (unat v))"
proof (induction m p v rule: EncodeVarint64.induct)
  case (1 m p v)
  show ?case
  proof (cases "128 \<le> v")
    case True
    have "(ucast ((v AND (128 - 1)) OR 128) :: byte) = ucast (v OR 128)"
      using continuation_byte [of v] by simp
    with True 1 show ?thesis
      by (subst EncodeVarint64.simps)
        (auto simp: Let_def varint_bytes_step not_less split: Option.bind_splits)
  next
    case False
    then have "v < 128" by simp
    then have "varint_bytes (unat v) = [ucast v]" by (intro varint_bytes_last) simp_all
    moreover have "EncodeVarint64 m p v = put_byte m p (ucast v)"
      by (subst EncodeVarint64.simps) (simp only: Let_def if_not_P [OF False])
    ultimately show ?thesis by (auto split: Option.bind_splits)
  qed
qed

lemma drop_bit_less_128: "drop_bit k v < 128 \<longleftrightarrow> unat v < 128 * 2 ^ k" for v :: u32
  by (simp add: less_128_iff unat_drop_bit_eq drop_bit_eq_div [where 'a = nat] div_less_iff_less_mult)

lemma EncodeVarint32_put: "EncodeVarint32 m p v = put_bytes m p (varint_bytes (unat v))"
proof -
  have small: "8 \<le> LENGTH(32)" by simp
  have put1: "Option.bind (put_byte m p b) (\<lambda>(m', p'). put_bytes m' p' []) = put_byte m p b" for m p b
    by (cases "put_byte m p b") auto
  have lim: "v < push_bit 7 1 \<longleftrightarrow> v < 128" "v < push_bit 14 1 \<longleftrightarrow> drop_bit 7 v < 128"
     "v < push_bit 21 1 \<longleftrightarrow> drop_bit 14 v < 128" "v < push_bit 28 1 \<longleftrightarrow> drop_bit 21 v < 128"
    unfolding drop_bit_less_128 by (simp_all add: word_less_nat_alt)
  have last: "drop_bit 28 v < 128" 
    using unsigned_less [of v, where 'a = nat] by (simp only: drop_bit_less_128) simp
  show ?thesis
    unfolding EncodeVarint32_def Let_def lim
    using last
    by (simp add: varint_bytes_step [OF small] varint_bytes_last [OF small] put1 del: put_bytes.simps(1))
qed

section \<open>The specification round-trips\<close>

lemma length_varint_bytes_pos [simp]: "0 < length (varint_bytes n)"
  by simp

lemma length_varint_bytes_le: "n < 128 ^ k \<Longrightarrow> 0 < k \<Longrightarrow> length (varint_bytes n) \<le> k"
proof (induction n arbitrary: k rule: varint_bytes.induct)
  case (1 n)
  show ?case
  proof (cases "n < 128")
    case True
    with "1.prems" show ?thesis by (subst varint_bytes.simps) simp
  next
    case False
    obtain j where k: "k = Suc j" using "1.prems" by (cases k) auto
    with False "1.prems" have "0 < j" by (cases j) auto
    have "n div 128 < 128 ^ j"
      using "1.prems"(1) by (simp add: k div_less_iff_less_mult mult.commute)
    from "1.IH" [OF False this \<open>0 < j\<close>] show ?thesis
      using False by (subst varint_bytes.simps) (simp add: k)
  qed
qed

lemma unat_continuation [simp]: "unat (word_of_nat (n mod 128) + 128 :: byte) = n mod 128 + 128"
  using unat_word_of_nat_byte [of "n mod 128 + 128"] by simp

lemma read_varint_bytes:
  "length (varint_bytes n) \<le> k \<Longrightarrow>
     read_varint k (varint_bytes n @ rest) = Some (n, length (varint_bytes n))"
proof (induction n arbitrary: k rule: varint_bytes.induct)
  case (1 n)
  obtain j where k: "k = Suc j"
    using "1.prems" length_varint_bytes_pos [of n] by (cases k) auto
  show ?case
  proof (cases "n < 128")
    case True
    then show ?thesis by (subst (1 2) varint_bytes.simps) (simp add: k unat_word_of_nat_byte)
  next
    case False
    then have v: "varint_bytes n = word_of_nat (n mod 128 + 128) # varint_bytes (n div 128)"
      by (subst varint_bytes.simps) simp
    with "1.prems" have "length (varint_bytes (n div 128)) \<le> j" by (simp add: k)
    from "1.IH" [OF False this] v show ?thesis
      by (simp add: k)
  qed
qed

text \<open>No strict prefix of an encoding is accepted.\<close>

lemma read_varint_truncated: "read_varint k (take i (varint_bytes n)) = None \<or> length (varint_bytes n) \<le> i"
proof (induction n arbitrary: k i rule: varint_bytes.induct)
  case (1 n)
  show ?case
  proof (cases "n < 128 \<or> i = 0 \<or> k = 0")
    case True
    then show ?thesis
      by (cases k; cases i) (auto simp: varint_bytes.simps [of n])
  next
    case False
    then obtain j l where k: "k = Suc j" and i: "i = Suc l" by (cases k; cases i) auto
    have v: "varint_bytes n = word_of_nat (n mod 128 + 128) # varint_bytes (n div 128)"
      using False by (subst varint_bytes.simps) simp
    from "1.IH" [of j l] False show ?thesis
      by (auto simp: k i v)
  qed
qed

lemma read_varint_bounds: "read_varint k bs = Some (v, n) \<Longrightarrow> 0 < n \<and> n \<le> k \<and> n \<le> length bs \<and> v < 128 ^ n"
proof (induction k bs arbitrary: v n rule: read_varint.induct)
  case (3 k b bs)
  show ?case
  proof (cases "unat b < 128")
    case False
    with 3 obtain v' n' where *: "read_varint k bs = Some (v', n')" "v = unat b - 128 + 128 * v'" "n = Suc n'"
      by auto
    have "v' < 128 ^ n'" "n' \<le> k" "n' \<le> length bs" using "3.IH" [OF False *(1)] by auto
    moreover from False unat_byte_less [of b] have "unat b - 128 < 128" by linarith
    ultimately have "unat b - 128 + 128 * v' < 128 * 128 ^ n'" by linarith
    with * \<open>n' \<le> k\<close> \<open>n' \<le> length bs\<close> show ?thesis by simp
  qed (use 3 in auto)
qed auto

text \<open>Reading fails exactly when the first \<open>k\<close> bytes all ask for more.\<close>

lemma read_varint_None: "read_varint k bs = None \<longleftrightarrow> (\<forall>b \<in> set (take k bs). 128 \<le> unat b)"
  by (induction k bs rule: read_varint.induct) auto

section \<open>The decoders read the specified number\<close>

lemma bit_7_byte: "bit c 7 \<longleftrightarrow> \<not> unat c < 128" for c :: byte
proof -
  have "bit c 7 \<longleftrightarrow> odd (unat c div 128)"
    using bit_unsigned_iff [of c 7, where 'a = nat] by (simp add: bit_iff_odd [of "unat c"])
  moreover have "unat c div 128 = 1" if "\<not> unat c < 128"
    by (rule div_nat_eqI) (use that in simp_all)
  ultimately show ?thesis by (cases "unat c < 128") simp_all
qed

lemma word_128_neq_0:
  assumes len: "8 \<le> LENGTH('a)"
  shows "(128 :: 'a::len word) \<noteq> 0"
proof
  assume zero: "(128 :: 'a word) = 0"
  from unat_128 [OF len] have "unat (0 :: 'a word) = 128" unfolding zero .
  then show False by simp
qed

lemma byte_continues:
  fixes c :: byte
  assumes len: "8 \<le> LENGTH('a::len)"
  shows "(ucast c :: 'a word) AND 128 \<noteq> 0 \<longleftrightarrow> \<not> unat c < 128"
    and "\<not> unat c < 128 \<Longrightarrow> (ucast c :: 'a word) AND 127 = word_of_nat (unat c - 128)"
proof -
  have "(ucast c :: 'a word) AND 128 = (if bit c 7 then 128 else 0)"
    using len
    by (cases "bit c 7"; intro bit_word_eqI)
      (auto simp only: bit_and_iff bit_unsigned_iff bit_128 possible_bit_word if_True if_False
        bit_0_eq bot_fun_def bot_bool_def)
  moreover have "(128 :: 'a word) \<noteq> 0" by (rule word_128_neq_0 [OF len])
  ultimately show "(ucast c :: 'a word) AND 128 \<noteq> 0 \<longleftrightarrow> \<not> unat c < 128"
    by (simp add: bit_7_byte)
  assume c: "\<not> unat c < 128"
  have "unat c - 128 = unat c mod 128"
  proof -
    have "unat c - 128 < 128" using unat_byte_less [of c] by linarith
    with c show ?thesis by (simp add: le_mod_geq)
  qed
  also have "\<dots> = take_bit 7 (unat c)" by (simp add: take_bit_eq_mod)
  finally have low: "unat c - 128 = take_bit 7 (unat c)" .
  show "(ucast c :: 'a word) AND 127 = word_of_nat (unat c - 128)"
    unfolding low
    by (auto intro!: bit_word_eqI simp only: bit_and_iff bit_unsigned_iff bit_take_bit_iff
        bit_of_nat_iff bit_127 possible_bit_word) simp
qed

text \<open>
  The loops, from any iteration on: \<open>k\<close> groups have been read into \<open>r\<close>, and \<open>bs\<close> are the bytes
  from the current position up to the limit.
\<close>

definition varint_result :: "store \<Rightarrow> ptr \<Rightarrow> nat \<Rightarrow> nat \<Rightarrow> 'a::len word \<Rightarrow> (nat \<times> nat) option \<Rightarrow> (ptr \<times> 'a word) option" where
  "varint_result m p k r value res =
     (case res of
        None \<Rightarrow> Some (Null, value)
      | Some (v, n) \<Rightarrow>
          map_option (\<lambda>q. (q, word_of_nat (r + 2 ^ (7 * k) * v))) (ptr_add m p (int n)))"

lemma varint_result_step:
  assumes "ptr_add m p 1 = Some q"
  shows "varint_result m q (Suc k) (r + 2 ^ (7 * k) * c) value res =
    varint_result m p k r value (map_option (\<lambda>(v, n). (c + 128 * v, Suc n)) res)"
  using ptr_add_assoc [OF assms]
  by (auto simp: varint_result_def power_add algebra_simps split: option.splits)

lemma group_less:
  fixes r c k :: nat
  assumes "r < 2 ^ (7 * k)" "c < 128"
  shows "r + 2 ^ (7 * k) * c < 2 ^ (7 * Suc k)"
proof -
  have "r + 2 ^ (7 * k) * c < 2 ^ (7 * k) * Suc c" using assms(1) by simp
  also have "\<dots> \<le> 2 ^ (7 * k) * 128" by (rule mult_le_mono2) (use assms(2) in simp)
  also have "\<dots> = 2 ^ (7 * Suc k)" by (simp add: power_add)
  finally show ?thesis .
qed

lemma GetVarint32_loop_step:
  assumes "shift \<le> 28" "ptr_less p limit = Some True" "load_byte m p = Some b"
    "ptr_add m p 1 = Some q"
  shows "GetVarint32_loop m p limit shift result value =
    (if (ucast b :: u32) AND 128 \<noteq> 0
     then GetVarint32_loop m q limit (shift + 7)
            (result OR push_bit (unat shift) (ucast b AND 127)) value
     else Some (q, result OR push_bit (unat shift) (ucast b)))"
  using assms by (subst GetVarint32_loop.simps) (simp add: Let_def)

lemma GetVarint32_loop_spec:
  assumes "ptr_add m p (int (length bs)) = Some limit" "load_bytes m p (length bs) = Some bs"
    and "k + j = 5" "r < 2 ^ (7 * k)"
  shows "GetVarint32_loop m p limit (word_of_nat (7 * k)) (word_of_nat r) value =
    varint_result m p k r value (read_varint j bs)"
  using assms
proof (induction j arbitrary: p k r bs)
  case 0
  then show ?case
    by (subst GetVarint32_loop.simps) (simp add: varint_result_def)
next
  case (Suc j)
  have shift: "(word_of_nat (7 * k) :: u32) \<le> 28" "unat (word_of_nat (7 * k) :: u32) = 7 * k"
    using Suc.prems(3)
    by (simp_all add: word_le_nat_alt unsigned_of_nat take_bit_nat_eq_self del: of_nat_mult)
  have p0: "ptr_add m p 0 = Some p" using Suc.prems(2) by (rule ptr_add_zero)
  have less: "ptr_less p limit = Some (bs \<noteq> [])"
    using ptr_less_add [OF p0 Suc.prems(1)] by simp
  show ?case
  proof (cases bs)
    case Nil
    with less shift(1) show ?thesis
      by (subst GetVarint32_loop.simps) (simp add: varint_result_def)
  next
    case (Cons b bs')
    obtain q where q: "ptr_add m p 1 = Some q" "load_bytes m q (length bs') = Some bs'"
      using load_bytes_drop [OF Suc.prems(2), of 1] by (auto simp: Cons)
    have lim: "ptr_add m q (int (length bs')) = Some limit"
      using Suc.prems(1) ptr_add_assoc [OF q(1)] by (simp add: Cons)
    have ld: "load_byte m p = Some b"
      using Suc.prems(2) by (auto simp: Cons intro: load_byte_Cons)
    have more: "ptr_less p limit = Some True" using less Cons by simp
    note step = GetVarint32_loop_step [OF shift(1) more ld q(1), unfolded shift(2)]
    show ?thesis
    proof (cases "unat b < 128")
      case True
      then have "\<not> (ucast b :: u32) AND 128 \<noteq> 0"
        using byte_continues(1) [of b, where 'a = 32] by simp
      moreover have "word_of_nat r OR push_bit (7 * k) (ucast b) =
          (word_of_nat (r + 2 ^ (7 * k) * unat b) :: u32)"
        using or_push_bit_nat [OF Suc.prems(4), of "unat b", where 'a = 32] by simp
      ultimately show ?thesis
        using True q(1) unfolding step by (simp only: if_False) (simp add: Cons varint_result_def)
    next
      case False
      let ?r = "r + 2 ^ (7 * k) * (unat b - 128)"
      have cont: "(ucast b :: u32) AND 128 \<noteq> 0"
        using False byte_continues(1) [of b, where 'a = 32] by simp
      have acc: "word_of_nat r OR push_bit (7 * k) ((ucast b :: u32) AND 127) = word_of_nat ?r"
        unfolding byte_continues(2) [OF _ False, where 'a = 32, simplified]
        by (rule or_push_bit_nat [OF Suc.prems(4)])
      have next7: "word_of_nat (7 * k) + 7 = (word_of_nat (7 * Suc k) :: u32)" by simp
      have "unat b - 128 < 128" using unat_byte_less [of b] by linarith
      then have "?r < 2 ^ (7 * Suc k)" by (rule group_less [OF Suc.prems(4)])
      then have "GetVarint32_loop m q limit (word_of_nat (7 * Suc k)) (word_of_nat ?r) value =
          varint_result m q (Suc k) ?r value (read_varint j bs')"
        using Suc.prems(3) by (intro Suc.IH [OF lim q(2)]) simp_all
      then show ?thesis
        unfolding step if_P [OF cont] acc next7 varint_result_step [OF q(1)]
        by (simp only: Cons read_varint.simps if_not_P [OF False])
    qed
  qed
qed

lemma GetVarint64_loop_step:
  assumes "shift \<le> 63" "ptr_less p limit = Some True" "load_byte m p = Some b"
    "ptr_add m p 1 = Some q"
  shows "GetVarint64_loop m p limit shift result value =
    (if (ucast b :: u64) AND 128 \<noteq> 0
     then GetVarint64_loop m q limit (shift + 7)
            (result OR push_bit (unat shift) (ucast b AND 127)) value
     else Some (q, result OR push_bit (unat shift) (ucast b)))"
  using assms by (subst GetVarint64_loop.simps) (simp add: Let_def)

lemma GetVarint64_loop_spec:
  assumes "ptr_add m p (int (length bs)) = Some limit" "load_bytes m p (length bs) = Some bs"
    and "k + j = 10" "r < 2 ^ (7 * k)"
  shows "GetVarint64_loop m p limit (word_of_nat (7 * k)) (word_of_nat r) value =
    varint_result m p k r value (read_varint j bs)"
  using assms
proof (induction j arbitrary: p k r bs)
  case 0
  then show ?case
    by (subst GetVarint64_loop.simps) (simp add: varint_result_def)
next
  case (Suc j)
  have shift: "(word_of_nat (7 * k) :: u32) \<le> 63" "unat (word_of_nat (7 * k) :: u32) = 7 * k"
    using Suc.prems(3)
    by (simp_all add: word_le_nat_alt unsigned_of_nat take_bit_nat_eq_self del: of_nat_mult)
  have p0: "ptr_add m p 0 = Some p" using Suc.prems(2) by (rule ptr_add_zero)
  have less: "ptr_less p limit = Some (bs \<noteq> [])"
    using ptr_less_add [OF p0 Suc.prems(1)] by simp
  show ?case
  proof (cases bs)
    case Nil
    with less shift(1) show ?thesis
      by (subst GetVarint64_loop.simps) (simp add: varint_result_def)
  next
    case (Cons b bs')
    obtain q where q: "ptr_add m p 1 = Some q" "load_bytes m q (length bs') = Some bs'"
      using load_bytes_drop [OF Suc.prems(2), of 1] by (auto simp: Cons)
    have lim: "ptr_add m q (int (length bs')) = Some limit"
      using Suc.prems(1) ptr_add_assoc [OF q(1)] by (simp add: Cons)
    have ld: "load_byte m p = Some b"
      using Suc.prems(2) by (auto simp: Cons intro: load_byte_Cons)
    have more: "ptr_less p limit = Some True" using less Cons by simp
    note step = GetVarint64_loop_step [OF shift(1) more ld q(1), unfolded shift(2)]
    show ?thesis
    proof (cases "unat b < 128")
      case True
      then have "\<not> (ucast b :: u64) AND 128 \<noteq> 0"
        using byte_continues(1) [of b, where 'a = 64] by simp
      moreover have "word_of_nat r OR push_bit (7 * k) (ucast b) =
          (word_of_nat (r + 2 ^ (7 * k) * unat b) :: u64)"
        using or_push_bit_nat [OF Suc.prems(4), of "unat b", where 'a = 64] by simp
      ultimately show ?thesis
        using True q(1) unfolding step by (simp only: if_False) (simp add: Cons varint_result_def)
    next
      case False
      let ?r = "r + 2 ^ (7 * k) * (unat b - 128)"
      have cont: "(ucast b :: u64) AND 128 \<noteq> 0"
        using False byte_continues(1) [of b, where 'a = 64] by simp
      have acc: "word_of_nat r OR push_bit (7 * k) ((ucast b :: u64) AND 127) = word_of_nat ?r"
        unfolding byte_continues(2) [OF _ False, where 'a = 64, simplified]
        by (rule or_push_bit_nat [OF Suc.prems(4)])
      have next7: "word_of_nat (7 * k) + 7 = (word_of_nat (7 * Suc k) :: u32)" by simp
      have "unat b - 128 < 128" using unat_byte_less [of b] by linarith
      then have "?r < 2 ^ (7 * Suc k)" by (rule group_less [OF Suc.prems(4)])
      then have "GetVarint64_loop m q limit (word_of_nat (7 * Suc k)) (word_of_nat ?r) value =
          varint_result m q (Suc k) ?r value (read_varint j bs')"
        using Suc.prems(3) by (intro Suc.IH [OF lim q(2)]) simp_all
      then show ?thesis
        unfolding step if_P [OF cont] acc next7 varint_result_step [OF q(1)]
        by (simp only: Cons read_varint.simps if_not_P [OF False])
    qed
  qed
qed

text \<open>The pointer routines; the one-byte fast path of \<open>GetVarint32Ptr\<close> changes no result.\<close>

lemma GetVarint32PtrFallback_spec:
  assumes "ptr_add m p (int (length bs)) = Some limit" "load_bytes m p (length bs) = Some bs"
  shows "GetVarint32PtrFallback m p limit value = varint_result m p 0 0 value (read_varint 5 bs)"
  using GetVarint32_loop_spec [OF assms, of 0 5 0] by (simp add: GetVarint32PtrFallback_def)

lemma GetVarint64Ptr_spec:
  assumes "ptr_add m p (int (length bs)) = Some limit" "load_bytes m p (length bs) = Some bs"
  shows "GetVarint64Ptr m p limit value = varint_result m p 0 0 value (read_varint 10 bs)"
  using GetVarint64_loop_spec [OF assms, of 0 10 0] by (simp add: GetVarint64Ptr_def)

lemma GetVarint32Ptr_fallback: "GetVarint32Ptr m p limit value = GetVarint32PtrFallback m p limit value"
proof -
  have "GetVarint32PtrFallback m p limit value = do { q \<leftarrow> ptr_add m p 1; Some (q, ucast c) }"
    if "ptr_less p limit = Some True" "load_byte m p = Some c" "(ucast c :: u32) AND 128 = 0" for c
    unfolding GetVarint32PtrFallback_def using that
    by (subst GetVarint32_loop.simps) (simp add: Let_def)
  then show ?thesis
    by (auto simp: GetVarint32Ptr_def Let_def GetVarint32PtrFallback_def GetVarint32_loop.simps [of m p limit 0 0]
        split: Option.bind_splits)
qed

section \<open>The string and slice routines\<close>

lemma length_varint_u32: "length (varint_bytes (unat (v :: u32))) \<le> 5"
  using unsigned_less [of v, where 'a = nat] by (intro length_varint_bytes_le) simp_all

lemma length_varint_u64: "length (varint_bytes (unat (v :: u64))) \<le> 10"
  using unsigned_less [of v, where 'a = nat] by (intro length_varint_bytes_le) simp_all

lemma PutVarint32_appends: "PutVarint32 m dst v = Some (dst @ varint_bytes (unat v))"
proof -
  obtain m1 buf where a: "alloc m 5 = (m1, buf)" by fastforce
  with load_bytes_alloc [of m 5] have "load_bytes m1 buf 5 = Some (replicate 5 (fill m))" by simp
  from put_bytes_buffer [OF this varint_bytes_nonempty length_varint_u32 [of v]] show ?thesis
    by (auto simp: PutVarint32_def a EncodeVarint32_put)
qed

lemma PutVarint64_appends: "PutVarint64 m dst v = Some (dst @ varint_bytes (unat v))"
proof -
  obtain m1 buf where a: "alloc m 10 = (m1, buf)" by fastforce
  with load_bytes_alloc [of m 10] have "load_bytes m1 buf 10 = Some (replicate 10 (fill m))" by simp
  from put_bytes_buffer [OF this varint_bytes_nonempty length_varint_u64 [of v]] show ?thesis
    by (auto simp: PutVarint64_def a EncodeVarint64_put)
qed

lemma VarintLength_from_length: "VarintLength_from v len = len + int (length (varint_bytes (unat v))) - 1"
proof (induction v len rule: VarintLength_from.induct)
  case (1 v len)
  show ?case
  proof (cases "128 \<le> v")
    case True
    then have "\<not> v < 128" by simp
    then have "length (varint_bytes (unat v)) = Suc (length (varint_bytes (unat (drop_bit 7 v))))"
      by (subst varint_bytes_step) simp_all
    with True 1 show ?thesis by (subst VarintLength_from.simps) simp
  next
    case False
    then have "v < 128" by simp
    then have "varint_bytes (unat v) = [ucast v]" by (intro varint_bytes_last) simp_all
    with False show ?thesis by (subst VarintLength_from.simps) (simp only: if_False, simp)
  qed
qed

text \<open>The tail of a slice, from a position inside it.\<close>

lemma slice_tail:
  assumes bs: "slice_bytes m s = Some bs" and n: "n \<le> length bs"
    and lim: "ptr_add m (sl_data s) (uint (sl_size s)) = Some limit"
    and q: "ptr_add m (sl_data s) (int n) = Some q"
  shows "\<exists>d. ptr_diff limit q = Some d \<and> slice_bytes m (Slice_new q (word_of_int d)) = Some (drop n bs)"
proof -
  have len: "length bs = unat (sl_size s)" by (rule slice_bytes_length [OF bs])
  have d: "ptr_diff limit q = Some (uint (sl_size s) - int n)" by (rule ptr_diff_add2 [OF lim q])
  have "uint (sl_size s) - int n = int (unat (sl_size s) - n)" using n by (simp add: len of_nat_diff)
  moreover have "unat (word_of_nat (unat (sl_size s) - n) :: u64) = unat (sl_size s) - n"
    using unsigned_less [of "sl_size s", where 'a = nat]
    by (simp only: unsigned_of_nat) (simp add: take_bit_nat_eq_self)
  moreover have "load_bytes m q (unat (sl_size s) - n) = Some (drop n bs)"
    using load_bytes_drop [OF bs [unfolded slice_bytes_def] n [unfolded len]] q by simp
  ultimately show ?thesis using d by (simp add: slice_bytes_def Slice_new_def)
qed

lemma slice_limit:
  "slice_bytes m s = Some bs \<Longrightarrow> \<exists>limit. ptr_add m (sl_data s) (uint (sl_size s)) = Some limit \<and>
     ptr_add m (sl_data s) (int (length bs)) = Some limit \<and>
     load_bytes m (sl_data s) (length bs) = Some bs"
  using load_bytes_drop [of m "sl_data s" "unat (sl_size s)" bs "unat (sl_size s)"]
  by (auto simp: slice_bytes_length slice_bytes_def)

text \<open>What a Get routine does, from what its pointer routine reads.\<close>

definition get_result :: "store \<Rightarrow> slice \<Rightarrow> 'a::len word \<Rightarrow> byte list \<Rightarrow> (nat \<times> nat) option \<Rightarrow>
    (bool \<times> slice \<times> 'a word) option \<Rightarrow> bool" where
  "get_result m input value bs res out =
     (case res of
        None \<Rightarrow> out = Some (False, input, value)
      | Some (v, n) \<Rightarrow> \<exists>rest. out = Some (True, rest, word_of_nat v) \<and>
          slice_bytes m rest = Some (drop n bs))"

lemma GetVarint32_spec:
  assumes "slice_bytes m input = Some bs"
  shows "get_result m input value bs (read_varint 5 bs) (GetVarint32 m input value)"
proof -
  obtain limit where lim: "ptr_add m (sl_data input) (uint (sl_size input)) = Some limit"
      "ptr_add m (sl_data input) (int (length bs)) = Some limit"
      "load_bytes m (sl_data input) (length bs) = Some bs"
    using slice_limit [OF assms] by blast
  note get = GetVarint32PtrFallback_spec [OF lim(2,3)]
  show ?thesis
  proof (cases "read_varint 5 bs")
    case None
    with get lim(1) show ?thesis
      by (simp add: get_result_def GetVarint32_def GetVarint32Ptr_fallback varint_result_def)
  next
    case (Some vn)
    then obtain v n where vn: "read_varint 5 bs = Some (v, n)" by (cases vn) auto
    then have n: "n \<le> length bs" by (auto dest: read_varint_bounds)
    obtain q where q: "ptr_add m (sl_data input) (int n) = Some q"
      using load_bytes_drop [OF lim(3) n] by blast
    with slice_tail [OF assms n lim(1) q] get lim(1) vn ptr_add_not_Null [OF q] show ?thesis
      by (auto simp: get_result_def GetVarint32_def GetVarint32Ptr_fallback varint_result_def)
  qed
qed

lemma GetVarint64_spec:
  assumes "slice_bytes m input = Some bs"
  shows "get_result m input value bs (read_varint 10 bs) (GetVarint64 m input value)"
proof -
  obtain limit where lim: "ptr_add m (sl_data input) (uint (sl_size input)) = Some limit"
      "ptr_add m (sl_data input) (int (length bs)) = Some limit"
      "load_bytes m (sl_data input) (length bs) = Some bs"
    using slice_limit [OF assms] by blast
  note get = GetVarint64Ptr_spec [OF lim(2,3)]
  show ?thesis
  proof (cases "read_varint 10 bs")
    case None
    with get lim(1) show ?thesis
      by (simp add: get_result_def GetVarint64_def varint_result_def)
  next
    case (Some vn)
    then obtain v n where vn: "read_varint 10 bs = Some (v, n)" by (cases vn) auto
    then have n: "n \<le> length bs" by (auto dest: read_varint_bounds)
    obtain q where q: "ptr_add m (sl_data input) (int n) = Some q"
      using load_bytes_drop [OF lim(3) n] by blast
    with slice_tail [OF assms n lim(1) q] get lim(1) vn ptr_add_not_Null [OF q] show ?thesis
      by (auto simp: get_result_def GetVarint64_def varint_result_def)
  qed
qed

section \<open>Interpretations\<close>

lemma read_varint_u32: "read_varint 5 (varint_bytes (unat (v :: u32)) @ rest) =
    Some (unat v, length (varint_bytes (unat v)))"
  by (rule read_varint_bytes) (rule length_varint_u32)

lemma read_varint_u64: "read_varint 10 (varint_bytes (unat (v :: u64)) @ rest) =
    Some (unat v, length (varint_bytes (unat v)))"
  by (rule read_varint_bytes) (rule length_varint_u64)

interpretation varint32: codec PutVarint32 "\<lambda>m. Some" "\<lambda>v. True" "\<lambda>v. varint_bytes (unat v)" GetVarint32
proof
  fix m s and v v0 :: u32 and rest :: "byte list"
  assume "slice_bytes m s = Some (varint_bytes (unat v) @ rest)"
  from GetVarint32_spec [OF this, of v0]
  show "\<exists>s' v'. GetVarint32 m s v0 = Some (True, s', v') \<and> Some v' = Some v \<and>
      slice_bytes m s' = Some rest"
    by (auto simp: get_result_def read_varint_u32)
qed (auto simp: PutVarint32_appends intro: le_less_trans [OF length_varint_u32])

interpretation varint64: codec PutVarint64 "\<lambda>m. Some" "\<lambda>v. True" "\<lambda>v. varint_bytes (unat v)" GetVarint64
proof
  fix m s and v v0 :: u64 and rest :: "byte list"
  assume "slice_bytes m s = Some (varint_bytes (unat v) @ rest)"
  from GetVarint64_spec [OF this, of v0]
  show "\<exists>s' v'. GetVarint64 m s v0 = Some (True, s', v') \<and> Some v' = Some v \<and>
      slice_bytes m s' = Some rest"
    by (auto simp: get_result_def read_varint_u64)
qed (auto simp: PutVarint64_appends intro: le_less_trans [OF length_varint_u64])

section \<open>Properties\<close>

text \<open>
  C16: the unrolled 32-bit encoder and the looping 64-bit one are the same encoder: they write the
  same bytes, return the same pointer and fail on the same buffers.
\<close>

theorem encode_varint_equivalence: "EncodeVarint32 m p v = EncodeVarint64 m p (ucast v)"
  by (simp add: EncodeVarint32_put EncodeVarint64_put)

text \<open>
  The encoder, as a memory operation: it writes exactly the bytes of the encoding at \<open>dst\<close>,
  nothing else, and returns the pointer just past the last byte written; it faults exactly when
  that block write does.
\<close>

lemma encode_varint_writes:
  "EncodeVarint64 m p v =
     do { m' \<leftarrow> store_bytes m p (varint_bytes (unat v));
          q \<leftarrow> ptr_add m' p (int (length (varint_bytes (unat v))));
          Some (m', q) }"
  by (simp add: EncodeVarint64_put put_bytes_store_bytes)

text \<open>
  C36: \<open>VarintLength\<close> is the number of bytes the Put routines append, 1 to 10, and 1 to 5 for a
  32-bit value: the local buffers \<open>char buf[10]\<close> and \<open>char buf[5]\<close> never overflow.
\<close>

theorem varint_length_exact:
  "(\<exists>bs. PutVarint64 m dst v = Some (dst @ bs) \<and> int (length bs) = VarintLength v) \<and>
   (\<exists>bs. PutVarint32 m dst w = Some (dst @ bs) \<and> int (length bs) = VarintLength (ucast w)) \<and>
   1 \<le> VarintLength v \<and> VarintLength v \<le> 10 \<and> VarintLength (ucast w) \<le> 5"
  using length_varint_u64 [of v] length_varint_u32 [of w]
  by (simp add: PutVarint64_appends PutVarint32_appends VarintLength_def
      VarintLength_from_length Suc_le_eq)

text \<open>
  C7: the decoders on any input: they read the specified number, leave the bytes that follow it,
  never read past the end of the slice, and change nothing when they fail; a 32-bit result is
  the number modulo \<open>2 ^ 32\<close>.
\<close>

theorem get_varint_decodes:
  assumes "slice_bytes m input = Some bs"
  shows "get_result m input w bs (read_varint 5 bs) (GetVarint32 m input w) \<and>
         get_result m input d bs (read_varint 10 bs) (GetVarint64 m input d)"
  using GetVarint32_spec [OF assms] GetVarint64_spec [OF assms] by simp

theorem get_varint_decodes_witness:
  "\<exists>rest. GetVarint32 (store_of [0xAC, 0x02, 7]) (Slice_new (Ptr 1 0) 3) 0 = Some (True, rest, 300) \<and>
     slice_bytes (store_of [0xAC, 0x02, 7]) rest = Some [7]"
proof -
  have "slice_bytes (store_of [0xAC, 0x02, 7]) (Slice_new (Ptr 1 0) 3) = Some [0xAC, 0x02, 7]"
    by (simp add: slice_bytes_def Slice_new_def)
  moreover have "read_varint 5 [0xAC, 0x02, 7] = Some (300, 2)" by simp
  ultimately show ?thesis
    using get_varint_decodes [of _ "Slice_new (Ptr 1 0) 3" "[0xAC, 0x02, 7]" 0]
    by (auto simp: get_result_def)
qed

text \<open>The inlined one-byte fast path of \<open>GetVarint32Ptr\<close> never changes a result or a fault.\<close>

lemma get_varint32_fast_path: "GetVarint32Ptr m p limit v = GetVarint32PtrFallback m p limit v"
  by (rule GetVarint32Ptr_fallback)

text \<open>
  C2: streams of varints: values appended one after another are read back in order by as many
  Get calls, which leave exactly the bytes that follow the stream.
\<close>

theorem varint_stream_roundtrip:
  assumes "put_all PutVarint32 m [] ws = Some out" "slice_bytes m1 s = Some (out @ rest)"
    and "put_all PutVarint64 m [] ds = Some out'" "slice_bytes m2 t = Some (out' @ rest')"
  shows "(\<exists>s'. get_all GetVarint32 w m1 s (length ws) = Some (ws, s') \<and>
            slice_bytes m1 s' = Some rest) \<and>
         (\<exists>t'. get_all GetVarint64 d m2 t (length ds) = Some (ds, t') \<and>
            slice_bytes m2 t' = Some rest')"
proof -
  have "out = concat (map (\<lambda>v. varint_bytes (unat v)) ws)"
    "out' = concat (map (\<lambda>v. varint_bytes (unat v)) ds)"
    using assms(1,3) varint32.put_all_enc [where m = m and vs = ws and as = ws and dst = "[]"]
      varint64.put_all_enc [where m = m and vs = ds and as = ds and dst = "[]"]
    by (simp_all add: list.rel_eq list_all_iff)
  with varint32.get_all_enc [of m1 s ws rest w] varint64.get_all_enc [of m2 t ds rest' d] assms(2,4)
  show ?thesis by (simp add: list.rel_eq list_all_iff)
qed

theorem varint_stream_roundtrip_witness:
  "\<exists>s'. get_all GetVarint32 0 (store_of (varint_bytes 1 @ varint_bytes 300)) (Slice_new (Ptr 1 0) 3) 2
     = Some ([1, 300], s')"
proof -
  let ?out = "varint_bytes 1 @ varint_bytes 300"
  have b: "varint_bytes 1 = [1]" "varint_bytes 300 = [0xAC, 2]"
    by (simp_all add: varint_bytes.simps)
  have "put_all PutVarint32 empty_store [] [1, 300] = Some ?out"
    "put_all PutVarint64 empty_store [] [] = Some []"
    by (simp_all add: PutVarint32_appends)
  moreover have "slice_bytes (store_of ?out) (Slice_new (Ptr 1 0) 3) = Some (?out @ [])"
    unfolding b by (simp add: slice_bytes_def Slice_new_def)
  moreover have "slice_bytes empty_store Slice_empty = Some ([] @ [])"
    by (simp add: slice_bytes_empty)
  ultimately have "\<exists>s'. get_all GetVarint32 0 (store_of ?out) (Slice_new (Ptr 1 0) 3) (length [1, 300 :: u32])
      = Some ([1, 300], s') \<and> slice_bytes (store_of ?out) s' = Some []"
    by (intro varint_stream_roundtrip [THEN conjunct1])
  moreover have "length [1, 300 :: u32] = 2" by simp
  ultimately show ?thesis by (metis (no_types))
qed

text \<open>
  C25: corrupted input is refused, without an effect: a slice that ends inside an encoding, or one
  whose first 5 (or 10) bytes all ask for another byte.
\<close>

theorem get_varint_refuses:
  assumes bs: "slice_bytes m input = Some bs"
  shows "((\<forall>b \<in> set (take 5 bs). 128 \<le> unat b) \<longleftrightarrow> GetVarint32 m input w = Some (False, input, w)) \<and>
    ((\<forall>b \<in> set (take 10 bs). 128 \<le> unat b) \<longleftrightarrow> GetVarint64 m input d = Some (False, input, d)) \<and>
    (\<forall>v i. bs = take i (varint_bytes v) \<and> i < length (varint_bytes v) \<longrightarrow>
       GetVarint64 m input d = Some (False, input, d))"
proof -
  have trunc: "read_varint 10 bs = None" if "bs = take i (varint_bytes v)" "i < length (varint_bytes v)" for v i
    using read_varint_truncated [of 10 i v] that by simp
  show ?thesis
    using GetVarint32_spec [OF bs, of w] GetVarint64_spec [OF bs, of d] trunc
    unfolding get_result_def read_varint_None [symmetric]
    by (auto split: option.splits)
qed

theorem get_varint_refuses_witness:
  "GetVarint32 (store_of [0xFF, 0xFF]) (Slice_new (Ptr 1 0) 2) 5 =
     Some (False, Slice_new (Ptr 1 0) 2, 5)"
proof -
  have "slice_bytes (store_of [0xFF, 0xFF]) (Slice_new (Ptr 1 0) 2) = Some [0xFF, 0xFF]"
    by (simp add: slice_bytes_def Slice_new_def)
  from get_varint_refuses [OF this, of 5 0] show ?thesis by simp
qed

text \<open>
  No encoding is a prefix of another one, so a stream of varints parses in one way only.
\<close>

lemma put_varint_prefix_free:
  assumes "PutVarint64 m [] v = Some a" "PutVarint64 m [] w = Some b" "prefix a b"
  shows "v = w"
  using assms varint64.enc_prefix_free [of v w] by (simp add: PutVarint64_appends)

lemma put_varint_prefix_free_witness:
  "\<exists>a. PutVarint64 empty_store [] 5 = Some a \<and> prefix a a \<and> (5 :: u64) = 5"
proof -
  obtain a where a: "PutVarint64 empty_store [] 5 = Some a" by (simp add: PutVarint64_appends)
  have "prefix a a" by simp
  from put_varint_prefix_free [OF a a this] a show ?thesis by auto
qed

text \<open>
  The 32-bit decoder does not check the last group: of a fifth byte only the low four bits
  count, so five-byte inputs that differ in the other three read as the same number.
\<close>

lemma get_varint32_drops_high_bits:
  assumes "slice_bytes m s = Some [b0, b1, b2, b3, c]" "slice_bytes m' s' = Some [b0, b1, b2, b3, c']"
    and "\<forall>b \<in> {b0, b1, b2, b3}. 128 \<le> unat b" "unat c < 128" "unat c' < 128"
    and "unat c mod 16 = unat c' mod 16"
  shows "\<exists>t t' v. GetVarint32 m s w = Some (True, t, v) \<and> GetVarint32 m' s' w = Some (True, t', v)"
proof -
  define low where "low = (unat b0 - 128) + 128 * ((unat b1 - 128) + 128 * ((unat b2 - 128) + 128 * (unat b3 - 128)))"
  have read: "read_varint 5 [b0, b1, b2, b3, x] = Some (low + 2 ^ 28 * unat x, 5)" if "unat x < 128" for x
    using assms(3) that by (simp add: low_def algebra_simps)
  have drop: "(word_of_nat (low + 2 ^ 28 * unat x) :: u32) = word_of_nat (low + 2 ^ 28 * (unat x mod 16))" for x :: byte
  proof -
    obtain h l where x: "unat x = l + 16 * h" "unat x mod 16 = l"
      using mod_mult_div_eq [of "unat x" 16] by metis
    have "low + 2 ^ 28 * unat x = low + 2 ^ 28 * (unat x mod 16) + 2 ^ 32 * h"
      unfolding x(2) unfolding x(1) by simp
    moreover have "(word_of_nat (n + 2 ^ 32 * h) :: u32) = word_of_nat n" for n
      by (simp add: word_of_nat_eq_iff take_bit_eq_mod del: of_nat_add of_nat_mult)
    ultimately show ?thesis by (simp only:)
  qed
  show ?thesis
    using GetVarint32_spec [OF assms(1), of w] GetVarint32_spec [OF assms(2), of w]
      read [OF assms(4)] read [OF assms(5)] drop [of c] drop [of c'] assms(6)
    by (auto simp: get_result_def)
qed

lemma get_varint32_drops_high_bits_witness:
  "\<exists>t t' v. GetVarint32 (two_blocks [255, 255, 255, 255, 15] [255, 255, 255, 255, 127])
       (Slice_new (Ptr 1 0) 5) 0 = Some (True, t, v) \<and>
     GetVarint32 (two_blocks [255, 255, 255, 255, 15] [255, 255, 255, 255, 127])
       (Slice_new (Ptr 2 0) 5) 0 = Some (True, t', v)"
proof -
  let ?m = "two_blocks [255, 255, 255, 255, 15] [255, 255, 255, 255, 127]"
  have "slice_bytes ?m (Slice_new (Ptr 1 0) 5) = Some [255, 255, 255, 255, 15]"
    "slice_bytes ?m (Slice_new (Ptr 2 0) 5) = Some [255, 255, 255, 255, 127]"
    by (simp_all add: slice_bytes_def Slice_new_def two_blocks_def)
  from get_varint32_drops_high_bits [OF this, of 0] show ?thesis by simp
qed

end
