(* ===== verification/C2_LengthPrefix.thy ===== *)
theory C2_LengthPrefix
  imports C2_Varint
begin

text \<open>
  Length-prefixed strings (\<open>c2_coding.cc\<close>): the length as a 32-bit varint, then the bytes. The
  string routines implement the \<open>codec\<close> interface for contents below 4 GiB; above, the length
  that is written is not the length of what follows it.
\<close>

section \<open>Encoders\<close>

definition EncodeLengthPrefixedSlice :: "store \<Rightarrow> ptr \<Rightarrow> slice \<Rightarrow> (store \<times> ptr) option" where
  "EncodeLengthPrefixedSlice m dst value =
     do { (m, p) \<leftarrow> EncodeVarint32 m dst (ucast (sl_size value));
          bs \<leftarrow> load_bytes m (sl_data value) (unat (sl_size value));
          m \<leftarrow> store_bytes m p bs;
          p \<leftarrow> ptr_add m p (uint (sl_size value));
          Some (m, p) }"

definition PutLengthPrefixedSlice :: "store \<Rightarrow> byte list \<Rightarrow> slice \<Rightarrow> byte list option" where
  "PutLengthPrefixedSlice m dst value =
     do { dst \<leftarrow> PutVarint32 m dst (ucast (sl_size value));
          bs \<leftarrow> load_bytes m (sl_data value) (unat (sl_size value));
          Some (dst @ bs) }"

section \<open>Decoders\<close>

text \<open>The local \<open>uint32_t len\<close> is declared without a value.\<close>

definition uninit32 :: "store \<Rightarrow> u32" where
  "uninit32 m = 0x01010101 * ucast (fill m)"

text \<open>The pointer routine: the returned pointer and \<open>*result\<close>.\<close>

definition GetLengthPrefixedSlicePtr :: "store \<Rightarrow> ptr \<Rightarrow> ptr \<Rightarrow> slice \<Rightarrow> (ptr \<times> slice) option" where
  "GetLengthPrefixedSlicePtr m p limit result =
     do { (p, len) \<leftarrow> GetVarint32Ptr m p limit (uninit32 m);
          if p = Null then Some (Null, result)
          else do {
            e \<leftarrow> ptr_add m p (uint len);
            past \<leftarrow> ptr_less limit e;
            if past then Some (Null, result)
            else Some (e, Slice_new p (ucast len)) } }"

text \<open>The slice routine: the flag, \<open>*input\<close> and \<open>*result\<close>.\<close>

definition GetLengthPrefixedSlice :: "platform \<Rightarrow> store \<Rightarrow> slice \<Rightarrow> slice \<Rightarrow>
    (bool \<times> slice \<times> slice) option" where
  "GetLengthPrefixedSlice pf m input result =
     do { (ok, input, len) \<leftarrow> GetVarint32 m input (uninit32 m);
          if ok \<and> sl_size input \<ge> ucast len
          then do {
            let result = Slice_new (sl_data input) (ucast len);
            input \<leftarrow> Slice_remove_prefix pf m input (ucast len);
            Some (True, input, result) }
          else Some (False, input, result) }"

section \<open>What is written\<close>

definition prefixed :: "byte list \<Rightarrow> byte list" where
  "prefixed bs = varint_bytes (length bs mod 2 ^ 32) @ bs"

lemma unat_ucast_u32: "unat (ucast w :: u32) = unat w mod 2 ^ 32" for w :: u64
  by (simp add: unsigned_ucast_eq take_bit_eq_mod)

lemma PutLengthPrefixedSlice_appends:
  "slice_bytes m v = Some bs \<Longrightarrow> PutLengthPrefixedSlice m dst v = Some (dst @ prefixed bs)"
  using slice_bytes_length [of m v bs]
  by (simp add: PutLengthPrefixedSlice_def PutVarint32_appends slice_bytes_def prefixed_def
      unat_ucast_u32)

lemma length_prefixed_le: "length (prefixed bs) \<le> 5 + length bs"
  using length_varint_bytes_le [of "length bs mod 2 ^ 32" 5] by (simp add: prefixed_def)

section \<open>What is read\<close>

text \<open>
  The result of the slice routine on the bytes \<open>bs\<close>, in the three cases the code has: no length,
  a length that the rest of the input cannot satisfy, and a string.
\<close>

lemma GetLengthPrefixedSlice_no_length:
  assumes "slice_bytes m input = Some bs" "read_varint 5 bs = None"
  shows "GetLengthPrefixedSlice pf m input result = Some (False, input, result)"
  using GetVarint32_spec [OF assms(1), of "uninit32 m"] assms(2)
  by (simp add: GetLengthPrefixedSlice_def get_result_def)

lemma GetLengthPrefixedSlice_short:
  assumes "slice_bytes m input = Some bs" "read_varint 5 bs = Some (v, n)"
    and "length bs - n < v mod 2 ^ 32"
  shows "\<exists>rest. GetLengthPrefixedSlice pf m input result = Some (False, rest, result) \<and>
     slice_bytes m rest = Some (drop n bs)"
proof -
  obtain rest where get: "GetVarint32 m input (uninit32 m) = Some (True, rest, word_of_nat v)"
    and rest: "slice_bytes m rest = Some (drop n bs)"
    using GetVarint32_spec [OF assms(1), of "uninit32 m"] assms(2) by (auto simp: get_result_def)
  have "\<not> ucast (word_of_nat v :: u32) \<le> sl_size rest"
    using slice_bytes_length [OF rest] assms(3)
    by (simp add: word_le_nat_alt unsigned_of_nat take_bit_eq_mod)
  with get rest show ?thesis by (simp add: GetLengthPrefixedSlice_def)
qed

lemma GetLengthPrefixedSlice_string:
  assumes "slice_bytes m input = Some bs" "read_varint 5 bs = Some (v, n)"
    and "v mod 2 ^ 32 \<le> length bs - n"
  shows "\<exists>rest str. GetLengthPrefixedSlice pf m input result = Some (True, rest, str) \<and>
     slice_bytes m str = Some (take (v mod 2 ^ 32) (drop n bs)) \<and>
     slice_bytes m rest = Some (drop (n + v mod 2 ^ 32) bs)"
proof -
  let ?len = "ucast (word_of_nat v :: u32) :: u64"
  obtain rest where get: "GetVarint32 m input (uninit32 m) = Some (True, rest, word_of_nat v)"
    and rest: "slice_bytes m rest = Some (drop n bs)"
    using GetVarint32_spec [OF assms(1), of "uninit32 m"] assms(2) by (auto simp: get_result_def)
  have len: "unat ?len = v mod 2 ^ 32" by (simp add: unsigned_of_nat take_bit_eq_mod)
  then have le: "?len \<le> sl_size rest"
    using slice_bytes_length [OF rest] assms(3) by (simp add: word_le_nat_alt)
  have "\<exists>t. Slice_remove_prefix pf m rest ?len = Some t \<and>
      slice_bytes m t = Some (drop (unat ?len) (drop n bs))"
    using rest le by (rule Slice_remove_prefix_drop)
  moreover have "slice_bytes m (Slice_new (sl_data rest) ?len) = Some (take (unat ?len) (drop n bs))"
    using rest le unfolding slice_bytes_def Slice_new_def word_le_nat_alt
    by (auto intro: load_bytes_take)
  ultimately show ?thesis
    using get le unfolding len by (auto simp: GetLengthPrefixedSlice_def Let_def add.commute)
qed

text \<open>Where the result and the rest of the input start.\<close>

lemma GetVarint32_at:
  assumes "GetVarint32 m input d = Some (True, rest, w)" "slice_bytes m input = Some bs"
    and "read_varint 5 bs = Some (v, n)" "ptr_add m (sl_data input) (int n) = Some q"
  shows "sl_data rest = q"
proof -
  obtain limit where lim: "ptr_add m (sl_data input) (uint (sl_size input)) = Some limit"
      "ptr_add m (sl_data input) (int (length bs)) = Some limit"
      "load_bytes m (sl_data input) (length bs) = Some bs"
    using slice_limit [OF assms(2)] by blast
  have "GetVarint32Ptr m (sl_data input) limit d = Some (q, word_of_nat v)"
    using GetVarint32PtrFallback_spec [OF lim(2,3)] assms(3,4)
    by (simp add: GetVarint32Ptr_fallback varint_result_def)
  with assms(1) lim(1) ptr_add_not_Null [OF assms(4)] show ?thesis
    by (auto simp: GetVarint32_def bind_Some_iff Slice_new_def)
qed

lemma GetLengthPrefixedSlice_at:
  assumes "GetLengthPrefixedSlice pf m input result = Some (True, rest, str)"
    and bs: "slice_bytes m input = Some bs" and vn: "read_varint 5 bs = Some (v, n)"
    and q: "ptr_add m (sl_data input) (int n) = Some q"
  shows "str = Slice_new q (ucast (word_of_nat v :: u32)) \<and>
    ptr_add m (sl_data input) (int (n + v mod 2 ^ 32)) = Some (sl_data rest)"
proof -
  obtain r where get: "GetVarint32 m input (uninit32 m) = Some (True, r, word_of_nat v)"
    using GetVarint32_spec [OF bs, of "uninit32 m"] vn by (auto simp: get_result_def)
  have r: "sl_data r = q" using GetVarint32_at [OF get bs vn q] .
  have len: "uint (ucast (word_of_nat v :: u32) :: u64) = int (v mod 2 ^ 32)"
    by (simp add: unsigned_ucast_eq unsigned_of_nat take_bit_eq_mod)
  from assms(1) have str: "str = Slice_new q (ucast (word_of_nat v :: u32))"
    and rest: "Slice_remove_prefix pf m r (ucast (word_of_nat v :: u32)) = Some rest"
    by (auto simp: GetLengthPrefixedSlice_def get Let_def r bind_Some_iff split: if_splits)
  from rest have "ptr_add m q (int (v mod 2 ^ 32)) = Some (sl_data rest)"
    by (auto simp: Slice_remove_prefix_def r len bind_Some_iff)
  with str ptr_add_assoc [OF q] show ?thesis by simp
qed

section \<open>The pointer routines\<close>

lemma EncodeLengthPrefixedSlice_writes:
  assumes bs: "slice_bytes m v = Some bs" and other: "block_of dst \<noteq> block_of (sl_data v)"
    and room: "load_bytes m dst n = Some old" "length (prefixed bs) \<le> n"
  shows "\<exists>m' q. EncodeLengthPrefixedSlice m dst v = Some (m', q) \<and>
    store_bytes m dst (prefixed bs) = Some m' \<and> ptr_diff q dst = Some (int (length (prefixed bs)))"
proof -
  let ?pre = "varint_bytes (length bs mod 2 ^ 32)"
  have size: "length bs = unat (sl_size v)" using bs by (rule slice_bytes_length)
  have pre: "length ?pre \<le> n" using room(2) by (simp add: prefixed_def)
  obtain m1 where m1: "store_bytes m dst ?pre = Some m1"
    using store_bytes_valid [OF room(1) pre] by blast
  obtain p where p: "ptr_add m1 dst (int (length ?pre)) = Some p"
    using load_bytes_drop [OF room(1) pre] unfolding store_bytes_ptr_add [OF m1] by blast
  obtain m' where m': "store_bytes m dst (prefixed bs) = Some m'"
    using store_bytes_valid [OF room] by blast
  then have w: "store_bytes m1 p bs = Some m'"
    unfolding prefixed_def using store_bytes_append [OF m1 p] by simp
  obtain q where q: "ptr_add m' dst (int (length (prefixed bs))) = Some q"
    using load_bytes_drop [OF room] unfolding store_bytes_ptr_add [OF m'] by blast
  have "ptr_add m' p (uint (sl_size v)) = ptr_add m' dst (int (length ?pre) + uint (sl_size v))"
    using p unfolding store_bytes_ptr_add [OF w] by (rule ptr_add_assoc)
  also have "int (length ?pre) + uint (sl_size v) = int (length (prefixed bs))"
    by (simp add: prefixed_def size)
  finally have "ptr_add m' p (uint (sl_size v)) = Some q" by (simp only: q)
  moreover have "load_bytes m1 (sl_data v) (unat (sl_size v)) = Some bs"
    using bs by (simp add: store_bytes_other [OF m1 other] slice_bytes_def)
  ultimately show ?thesis
    using m1 p w m' ptr_diff_add [OF q]
    by (simp add: EncodeLengthPrefixedSlice_def EncodeVarint32_put put_bytes_store_bytes
        unat_ucast_u32 size)
qed

lemma GetLengthPrefixedSlicePtr_cases:
  assumes lim: "ptr_add m p (int (length bs)) = Some limit" and ld: "load_bytes m p (length bs) = Some bs"
  shows "case read_varint 5 bs of
      None \<Rightarrow> GetLengthPrefixedSlicePtr m p limit v0 = Some (Null, v0)
    | Some (v, n) \<Rightarrow>
        let len = v mod 2 ^ 32; e = ptr_add m p (int (n + len)) in
        if n + len \<le> length bs
        then \<exists>q str. GetLengthPrefixedSlicePtr m p limit v0 = Some (q, str) \<and> e = Some q \<and>
          (\<exists>r. ptr_add m p (int n) = Some r \<and> str = Slice_new r (ucast (word_of_nat v :: u32))) \<and>
          slice_bytes m str = Some (take len (drop n bs))
        else GetLengthPrefixedSlicePtr m p limit v0 = (if e = None then None else Some (Null, v0))"
proof (cases "read_varint 5 bs")
  case None
  then show ?thesis
    using GetVarint32PtrFallback_spec [OF lim ld]
    by (simp add: GetLengthPrefixedSlicePtr_def GetVarint32Ptr_fallback varint_result_def)
next
  case (Some vn)
  then obtain v n where vn: "read_varint 5 bs = Some (v, n)" by (cases vn) auto
  then have n: "n \<le> length bs" by (auto dest: read_varint_bounds)
  obtain q where q: "ptr_add m p (int n) = Some q" "load_bytes m q (length bs - n) = Some (drop n bs)"
    using load_bytes_drop [OF ld n] by blast
  have get: "GetVarint32Ptr m p limit d = Some (q, word_of_nat v)" for d
    using GetVarint32PtrFallback_spec [OF lim ld] vn q(1)
    by (simp add: GetVarint32Ptr_fallback varint_result_def)
  have len: "uint (word_of_nat v :: u32) = int (v mod 2 ^ 32)"
    "unat (ucast (word_of_nat v :: u32) :: u64) = v mod 2 ^ 32"
    by (simp_all add: unsigned_of_nat take_bit_eq_mod)
  have e: "ptr_add m q (int (v mod 2 ^ 32)) = ptr_add m p (int (n + v mod 2 ^ 32))"
    using ptr_add_assoc [OF q(1)] by simp
  have run: "GetLengthPrefixedSlicePtr m p limit v0 =
      (case ptr_add m p (int (n + v mod 2 ^ 32)) of
         None \<Rightarrow> None
       | Some r \<Rightarrow> if length bs < n + v mod 2 ^ 32 then Some (Null, v0)
                   else Some (r, Slice_new q (ucast (word_of_nat v :: u32))))"
    using ptr_add_not_Null [OF q(1)] ptr_less_add [OF lim]
    by (auto simp: GetLengthPrefixedSlicePtr_def get len(1) e [simplified] split: option.split)
  show ?thesis
  proof (cases "n + v mod 2 ^ 32 \<le> length bs")
    case True
    obtain r where "ptr_add m p (int (n + v mod 2 ^ 32)) = Some r"
      using load_bytes_drop [OF ld True] by blast
    moreover have "slice_bytes m (Slice_new q (ucast (word_of_nat v :: u32))) =
        Some (take (v mod 2 ^ 32) (drop n bs))"
      unfolding slice_bytes_def Slice_new_def slice.simps len(2)
      by (rule load_bytes_take [OF q(2)]) (use True in simp)
    ultimately show ?thesis using True vn q(1) by (simp add: run Let_def)
  next
    case False
    then show ?thesis using vn by (auto simp: run Let_def split: option.split)
  qed
qed

section \<open>Interpretation\<close>

interpretation length_prefixed: codec PutLengthPrefixedSlice slice_bytes
  "\<lambda>bs. length bs < 2 ^ 32" prefixed "GetLengthPrefixedSlice pf" for pf
proof
  fix m v dst and bs :: "byte list"
  assume "slice_bytes m v = Some bs"
  then show "PutLengthPrefixedSlice m dst v = Some (dst @ prefixed bs)"
    by (rule PutLengthPrefixedSlice_appends)
next
  fix m s v0 and bs rest :: "byte list"
  assume s: "slice_bytes m s = Some (prefixed bs @ rest)" and len: "length bs < 2 ^ 32"
  let ?n = "length (varint_bytes (length bs))"
  have "?n \<le> 5" using len by (intro length_varint_bytes_le) simp_all
  then have "read_varint 5 (prefixed bs @ rest) = Some (length bs, ?n)"
    using len by (simp add: prefixed_def read_varint_bytes)
  from GetLengthPrefixedSlice_string [OF s this, of pf v0] len
  show "\<exists>s' v. GetLengthPrefixedSlice pf m s v0 = Some (True, s', v) \<and>
      slice_bytes m v = Some bs \<and> slice_bytes m s' = Some rest"
    by (auto simp: prefixed_def)
next
  fix bs :: "byte list"
  assume "length bs < 2 ^ 32"
  with length_prefixed_le [of bs] show "length (prefixed bs) < 2 ^ 64" by simp
qed

section \<open>Properties\<close>

text \<open>
  C18: strings below 4 GiB, appended one after another with \<open>PutLengthPrefixedSlice\<close> and read from
  a slice in any store, come back in order with the bytes they had, and what follows them is left.
\<close>

theorem length_prefix_stream_roundtrip:
  assumes "list_all2 (\<lambda>v bs. slice_bytes m v = Some bs) vs strs" "\<forall>bs \<in> set strs. length bs < 2 ^ 32"
    and "put_all PutLengthPrefixedSlice m [] vs = Some out" "slice_bytes m' s = Some (out @ rest)"
  shows "\<exists>vs' s'. get_all (GetLengthPrefixedSlice pf) v0 m' s (length vs) = Some (vs', s') \<and>
    list_all2 (\<lambda>v bs. slice_bytes m' v = Some bs) vs' strs \<and> slice_bytes m' s' = Some rest"
proof -
  have valid: "list_all (\<lambda>bs. length bs < 2 ^ 32) strs" using assms(2) by (simp add: list_all_iff)
  have "out = concat (map prefixed strs)"
    using length_prefixed.put_all_enc [OF assms(1) valid, of "[]"] assms(3) by simp
  moreover have "length vs = length strs" using assms(1) by (rule list_all2_lengthD)
  ultimately show ?thesis
    using length_prefixed.get_all_enc [OF _ valid, of m' s rest pf v0] assms(4) by simp
qed

theorem length_prefix_stream_roundtrip_witness:
  "\<exists>vs' s'. get_all (GetLengthPrefixedSlice \<lparr>kLittleEndian = True, NDEBUG = False\<rparr>) Slice_empty
      (store_of [2, 5, 6, 0]) (Slice_new (Ptr 1 0) 4) 2 = Some (vs', s') \<and>
    list_all2 (\<lambda>v bs. slice_bytes (store_of [2, 5, 6, 0]) v = Some bs) vs' [[5, 6], []]"
proof -
  let ?m = "store_of [5, 6]"
  let ?vs = "[Slice_new (Ptr 1 0) 2, Slice_empty]"
  have den: "slice_bytes ?m (Slice_new (Ptr 1 0) 2) = Some [5, 6]" "slice_bytes ?m Slice_empty = Some []"
    by (simp_all add: slice_bytes_def Slice_new_def Slice_empty_def store_of_def)
  have "prefixed [5, 6] = [2, 5, 6]" "prefixed [] = [0]"
    by (simp_all add: prefixed_def varint_bytes.simps)
  with den have put: "put_all PutLengthPrefixedSlice ?m [] ?vs = Some [2, 5, 6, 0]"
    by (simp add: PutLengthPrefixedSlice_appends)
  have strs: "list_all2 (\<lambda>v bs. slice_bytes ?m v = Some bs) ?vs [[5, 6], []]"
    "\<forall>bs \<in> set [[5, 6], []]. length (bs :: byte list) < 2 ^ 32"
    using den by simp_all
  have input: "slice_bytes (store_of [2, 5, 6, 0]) (Slice_new (Ptr 1 0) 4) = Some ([2, 5, 6, 0] @ [])"
    by (simp add: slice_bytes_def Slice_new_def)
  have "length ?vs = 2" by simp
  with length_prefix_stream_roundtrip [OF strs put input] show ?thesis by metis
qed

text \<open>
  C9: \<open>GetLengthPrefixedSlice\<close> on any input: it refuses input with no length in its first five
  bytes and leaves it as it was; it refuses a length that the rest cannot satisfy, but then the
  input has already lost its length prefix; otherwise the result is a view of the next \<open>len\<close>
  bytes and the input starts behind them.
\<close>

theorem get_length_prefixed_cases:
  assumes "slice_bytes m input = Some bs"
  shows "case read_varint 5 bs of
      None \<Rightarrow> GetLengthPrefixedSlice pf m input v0 = Some (False, input, v0)
    | Some (v, n) \<Rightarrow>
        let len = v mod 2 ^ 32 in
        if len \<le> length bs - n
        then \<exists>rest str. GetLengthPrefixedSlice pf m input v0 = Some (True, rest, str) \<and>
          slice_bytes m str = Some (take len (drop n bs)) \<and>
          slice_bytes m rest = Some (drop (n + len) bs)
        else \<exists>rest. GetLengthPrefixedSlice pf m input v0 = Some (False, rest, v0) \<and>
          slice_bytes m rest = Some (drop n bs)"
  using GetLengthPrefixedSlice_no_length [OF assms] GetLengthPrefixedSlice_short [OF assms]
    GetLengthPrefixedSlice_string [OF assms]
  by (auto simp: Let_def split: option.split)

theorem get_length_prefixed_cases_witness:
  "\<exists>rest. GetLengthPrefixedSlice \<lparr>kLittleEndian = True, NDEBUG = True\<rparr> (store_of [9, 5, 6])
       (Slice_new (Ptr 1 0) 3) Slice_empty = Some (False, rest, Slice_empty) \<and>
     slice_bytes (store_of [9, 5, 6]) rest = Some [5, 6]"
proof -
  have "slice_bytes (store_of [9, 5, 6]) (Slice_new (Ptr 1 0) 3) = Some [9, 5, 6]"
    by (simp add: slice_bytes_def Slice_new_def)
  moreover have "read_varint 5 [9, 5, 6] = Some (9, 1)" by simp
  ultimately show ?thesis
    using get_length_prefixed_cases [of _ "Slice_new (Ptr 1 0) 3" "[9, 5, 6]"] by simp
qed

text \<open>
  The length is written as a \<open>uint32_t\<close>: a string of 4 GiB or more is read back as its first
  \<open>size mod 2 ^ 32\<close> bytes, and the others are left in the input as if they were the next record.
\<close>

lemma length_prefix_keeps_low_32_bits:
  assumes "slice_bytes m v = Some bs" "PutLengthPrefixedSlice m [] v = Some out"
    and "slice_bytes m' s = Some (out @ rest)"
  shows "\<exists>s' str. GetLengthPrefixedSlice pf m' s v0 = Some (True, s', str) \<and>
    slice_bytes m' str = Some (take (length bs mod 2 ^ 32) bs) \<and>
    slice_bytes m' s' = Some (drop (length bs mod 2 ^ 32) bs @ rest)"
proof -
  let ?len = "length bs mod 2 ^ 32" and ?n = "length (varint_bytes (length bs mod 2 ^ 32))"
  have in': "slice_bytes m' s = Some (prefixed bs @ rest)"
    using assms PutLengthPrefixedSlice_appends [OF assms(1), of "[]"] by simp
  have "?n \<le> 5" by (intro length_varint_bytes_le) simp_all
  then have "read_varint 5 (prefixed bs @ rest) = Some (?len, ?n)"
    by (simp add: prefixed_def read_varint_bytes)
  moreover have "?len \<le> length bs" by (rule mod_less_eq_dividend)
  ultimately show ?thesis
    using GetLengthPrefixedSlice_string [OF in', of ?len ?n pf v0] by (auto simp: prefixed_def)
qed

lemma length_prefix_keeps_low_32_bits_witness:
  "\<exists>s' str. GetLengthPrefixedSlice \<lparr>kLittleEndian = True, NDEBUG = False\<rparr>
       (store_of (0 # replicate (2 ^ 32) 7)) (Slice_new (Ptr 1 0) 0x100000001) Slice_empty
     = Some (True, s', str) \<and>
     slice_bytes (store_of (0 # replicate (2 ^ 32) 7)) str = Some []"
proof -
  let ?bs = "replicate (2 ^ 32) 7 :: byte list"
  have bs: "slice_bytes (store_of ?bs) (Slice_new (Ptr 1 0) 0x100000000) = Some ?bs"
    by (simp add: slice_bytes_def Slice_new_def)
  have "prefixed ?bs = 0 # ?bs" by (simp add: prefixed_def varint_bytes.simps)
  then have put: "PutLengthPrefixedSlice (store_of ?bs) [] (Slice_new (Ptr 1 0) 0x100000000) =
      Some (0 # ?bs)"
    by (simp only: PutLengthPrefixedSlice_appends [OF bs] append_Nil)
  have "slice_bytes (store_of (0 # ?bs)) (Slice_new (Ptr 1 0) 0x100000001) = Some ((0 # ?bs) @ [])"
    by (simp add: slice_bytes_def Slice_new_def)
  moreover have "take (length ?bs mod 2 ^ 32) ?bs = []" by simp
  ultimately show ?thesis using length_prefix_keeps_low_32_bits [OF bs put] by metis
qed

text \<open>
  \<open>EncodeLengthPrefixedSlice\<close> on a string that lies in another object than the buffer writes
  exactly the bytes that \<open>PutLengthPrefixedSlice\<close> appends, nothing else, and returns the pointer
  just past them.
\<close>

lemma encode_length_prefixed_writes:
  assumes "slice_bytes m v = Some bs" "block_of dst \<noteq> block_of (sl_data v)"
    and "PutLengthPrefixedSlice m [] v = Some out"
    and "load_bytes m dst n = Some old" "length out \<le> n"
  shows "\<exists>m' q. EncodeLengthPrefixedSlice m dst v = Some (m', q) \<and>
    store_bytes m dst out = Some m' \<and> ptr_diff q dst = Some (int (length out))"
proof -
  have "out = prefixed bs" using assms(3) PutLengthPrefixedSlice_appends [OF assms(1), of "[]"] by simp
  with EncodeLengthPrefixedSlice_writes [OF assms(1,2,4)] assms(5) show ?thesis by simp
qed

lemma encode_length_prefixed_writes_witness:
  "\<exists>m' q. EncodeLengthPrefixedSlice (two_blocks [5, 6] [0, 0, 0, 0]) (Ptr 2 1) (Slice_new (Ptr 1 0) 2) =
     Some (m', q) \<and> blocks m' 2 = Some [0, 2, 5, 6]"
proof -
  let ?m = "two_blocks [5, 6] [0, 0, 0, 0]"
  have bs: "slice_bytes ?m (Slice_new (Ptr 1 0) 2) = Some [5, 6]"
    by (simp add: slice_bytes_def Slice_new_def two_blocks_def)
  have "block_of (Ptr 2 1) \<noteq> block_of (sl_data (Slice_new (Ptr 1 0) 2))"
    by (simp add: Slice_new_def)
  moreover have "PutLengthPrefixedSlice ?m [] (Slice_new (Ptr 1 0) 2) = Some [2, 5, 6]"
    unfolding PutLengthPrefixedSlice_appends [OF bs] by (simp add: prefixed_def varint_bytes.simps)
  moreover have "load_bytes ?m (Ptr 2 1) 3 = Some [0, 0, 0]"
    by (simp add: two_blocks_def)
  ultimately show ?thesis
    using encode_length_prefixed_writes [OF bs, of "Ptr 2 1" "[2, 5, 6]" 3]
    by (auto simp: two_blocks_def)
qed

text \<open>
  C39: the two variants of \<open>GetLengthPrefixedSlice\<close> on the same input agree: they refuse the same
  inputs, and on the others they return the same slice and the pointer variant returns the pointer
  where the slice variant leaves the input. The exception is a length that leads out of the object
  that holds the input: the pointer variant forms \<open>p + len\<close> before it tests it, which is undefined
  behaviour, where the slice variant returns false.
\<close>

theorem get_length_prefixed_ptr_cases:
  assumes "slice_bytes m input = Some bs" "ptr_add m (sl_data input) (int (length bs)) = Some limit"
  shows "case read_varint 5 bs of
      None \<Rightarrow> GetLengthPrefixedSlicePtr m (sl_data input) limit v0 = Some (Null, v0) \<and>
        GetLengthPrefixedSlice pf m input v0 = Some (False, input, v0)
    | Some (v, n) \<Rightarrow>
        let len = v mod 2 ^ 32; e = ptr_add m (sl_data input) (int (n + len)) in
        if n + len \<le> length bs
        then \<exists>rest str. GetLengthPrefixedSlice pf m input v0 = Some (True, rest, str) \<and>
          GetLengthPrefixedSlicePtr m (sl_data input) limit v0 = Some (sl_data rest, str) \<and>
          e = Some (sl_data rest) \<and> slice_bytes m str = Some (take len (drop n bs)) \<and>
          slice_bytes m rest = Some (drop (n + len) bs)
        else GetLengthPrefixedSlicePtr m (sl_data input) limit v0 =
            (if e = None then None else Some (Null, v0)) \<and>
          (\<exists>rest. GetLengthPrefixedSlice pf m input v0 = Some (False, rest, v0))"
proof -
  have "load_bytes m (sl_data input) (length bs) = Some bs"
    using assms(1) slice_bytes_length [OF assms(1)] by (simp add: slice_bytes_def)
  note ptr = GetLengthPrefixedSlicePtr_cases [OF assms(2) this, of v0]
  show ?thesis
  proof (cases "read_varint 5 bs")
    case None
    with ptr GetLengthPrefixedSlice_no_length [OF assms(1)] show ?thesis by simp
  next
    case (Some vn)
    then obtain v n where vn: "read_varint 5 bs = Some (v, n)" by (cases vn) auto
    then have n: "n \<le> length bs" by (auto dest: read_varint_bounds)
    show ?thesis
    proof (cases "n + v mod 2 ^ 32 \<le> length bs")
      case True
      then have "v mod 2 ^ 32 \<le> length bs - n" by simp
      from GetLengthPrefixedSlice_string [OF assms(1) vn this, of pf v0] obtain rest str where
        get: "GetLengthPrefixedSlice pf m input v0 = Some (True, rest, str)"
        and "slice_bytes m rest = Some (drop (n + v mod 2 ^ 32) bs)" by blast
      with True ptr vn GetLengthPrefixedSlice_at [OF get assms(1) vn] show ?thesis
        by (auto simp: Let_def)
    next
      case False
      then have "length bs - n < v mod 2 ^ 32" using n by simp
      from GetLengthPrefixedSlice_short [OF assms(1) vn this] False ptr vn show ?thesis
        by (auto simp: Let_def simp del: split_paired_Ex)
    qed
  qed
qed

theorem get_length_prefixed_ptr_cases_witness:
  "GetLengthPrefixedSlicePtr (store_of [9, 5, 6]) (Ptr 1 0) (Ptr 1 3) Slice_empty = None \<and>
   (\<exists>rest str. GetLengthPrefixedSlice \<lparr>kLittleEndian = True, NDEBUG = True\<rparr> (store_of [2, 5, 6])
        (Slice_new (Ptr 1 0) 3) Slice_empty = Some (True, rest, str) \<and>
      GetLengthPrefixedSlicePtr (store_of [2, 5, 6]) (Ptr 1 0) (Ptr 1 3) Slice_empty =
        Some (sl_data rest, str) \<and> slice_bytes (store_of [2, 5, 6]) str = Some [5, 6])"
proof -
  let ?s = "Slice_new (Ptr 1 0) 3"
  have in1: "slice_bytes (store_of [9, 5, 6]) ?s = Some [9, 5, 6]"
    "ptr_add (store_of [9, 5, 6]) (sl_data ?s) (int (length [9, 5, 6 :: byte])) = Some (Ptr 1 3)"
    by (simp_all add: slice_bytes_def Slice_new_def)
  have in2: "slice_bytes (store_of [2, 5, 6]) ?s = Some [2, 5, 6]"
    "ptr_add (store_of [2, 5, 6]) (sl_data ?s) (int (length [2, 5, 6 :: byte])) = Some (Ptr 1 3)"
    by (simp_all add: slice_bytes_def Slice_new_def)
  have data: "sl_data ?s = Ptr 1 0" by (simp add: Slice_new_def)
  have r: "read_varint 5 [9, 5, 6] = Some (9, 1)" "read_varint 5 [2, 5, 6] = Some (2, 1)" by simp_all
  have "GetLengthPrefixedSlicePtr (store_of [9, 5, 6]) (Ptr 1 0) (Ptr 1 3) Slice_empty = None"
    using get_length_prefixed_ptr_cases [OF in1, of Slice_empty] unfolding r data by simp
  moreover have "\<exists>rest str. GetLengthPrefixedSlice \<lparr>kLittleEndian = True, NDEBUG = True\<rparr> (store_of [2, 5, 6])
        ?s Slice_empty = Some (True, rest, str) \<and>
      GetLengthPrefixedSlicePtr (store_of [2, 5, 6]) (Ptr 1 0) (Ptr 1 3) Slice_empty =
        Some (sl_data rest, str) \<and> slice_bytes (store_of [2, 5, 6]) str = Some [5, 6]"
    using get_length_prefixed_ptr_cases [OF in2, of Slice_empty "\<lparr>kLittleEndian = True, NDEBUG = True\<rparr>"]
    unfolding r data by auto
  ultimately show ?thesis by blast
qed

end
