(* ===== verification/C2_Fixed.thy ===== *)
theory C2_Fixed
  imports C2_Codec
begin

text \<open>
  The fixed-width encodings of \<open>c2_coding.h\<close> and \<open>c2_coding.cc\<close>. Each routine has two branches, as
  the code has: \<open>memcpy\<close> of the integer's own representation where \<open>port::kLittleEndian\<close> holds,
  shifts and masks elsewhere. The lemmas show that both write the same bytes, least significant
  first, so data written on one platform is read back on every other.
\<close>

section \<open>Encoders\<close>

definition EncodeFixed16 :: "platform \<Rightarrow> store \<Rightarrow> ptr \<Rightarrow> u16 \<Rightarrow> store option" where
  "EncodeFixed16 pf m buf v =
     (if kLittleEndian pf then store_bytes m buf (host_bytes pf 2 (unat v))
      else do {
        m \<leftarrow> store_at m buf 0 (ucast (v AND 0xff));
        store_at m buf 1 (ucast (drop_bit 8 v AND 0xff)) })"

definition EncodeFixed32 :: "platform \<Rightarrow> store \<Rightarrow> ptr \<Rightarrow> u32 \<Rightarrow> store option" where
  "EncodeFixed32 pf m buf v =
     (if kLittleEndian pf then store_bytes m buf (host_bytes pf 4 (unat v))
      else do {
        m \<leftarrow> store_at m buf 0 (ucast (v AND 0xff));
        m \<leftarrow> store_at m buf 1 (ucast (drop_bit 8 v AND 0xff));
        m \<leftarrow> store_at m buf 2 (ucast (drop_bit 16 v AND 0xff));
        store_at m buf 3 (ucast (drop_bit 24 v AND 0xff)) })"

definition EncodeFixed64 :: "platform \<Rightarrow> store \<Rightarrow> ptr \<Rightarrow> u64 \<Rightarrow> store option" where
  "EncodeFixed64 pf m buf v =
     (if kLittleEndian pf then store_bytes m buf (host_bytes pf 8 (unat v))
      else do {
        m \<leftarrow> store_at m buf 0 (ucast (v AND 0xff));
        m \<leftarrow> store_at m buf 1 (ucast (drop_bit 8 v AND 0xff));
        m \<leftarrow> store_at m buf 2 (ucast (drop_bit 16 v AND 0xff));
        m \<leftarrow> store_at m buf 3 (ucast (drop_bit 24 v AND 0xff));
        m \<leftarrow> store_at m buf 4 (ucast (drop_bit 32 v AND 0xff));
        m \<leftarrow> store_at m buf 5 (ucast (drop_bit 40 v AND 0xff));
        m \<leftarrow> store_at m buf 6 (ucast (drop_bit 48 v AND 0xff));
        store_at m buf 7 (ucast (drop_bit 56 v AND 0xff)) })"

text \<open>
  \<open>PutFixed32\<close> and \<open>PutFixed64\<close> encode into a local array and append it to the string \<open>*dst\<close>,
  which is its characters here.
\<close>

definition PutFixed32 :: "platform \<Rightarrow> store \<Rightarrow> byte list \<Rightarrow> u32 \<Rightarrow> byte list option" where
  "PutFixed32 pf m dst v =
     do { let (m, buf) = alloc m 4;
          m \<leftarrow> EncodeFixed32 pf m buf v;
          bs \<leftarrow> load_bytes m buf 4;
          Some (dst @ bs) }"

definition PutFixed64 :: "platform \<Rightarrow> store \<Rightarrow> byte list \<Rightarrow> u64 \<Rightarrow> byte list option" where
  "PutFixed64 pf m dst v =
     do { let (m, buf) = alloc m 8;
          m \<leftarrow> EncodeFixed64 pf m buf v;
          bs \<leftarrow> load_bytes m buf 8;
          Some (dst @ bs) }"

section \<open>Decoders\<close>

definition DecodeFixed16 :: "platform \<Rightarrow> store \<Rightarrow> ptr \<Rightarrow> u16 option" where
  "DecodeFixed16 pf m p =
     (if kLittleEndian pf
      then do { bs \<leftarrow> load_bytes m p 2; Some (word_of_nat (host_val pf bs)) }
      else do {
        b0 \<leftarrow> load_at m p 0;
        b1 \<leftarrow> load_at m p 1;
        Some (ucast b0 OR push_bit 8 (ucast b1)) })"

definition DecodeFixed32 :: "platform \<Rightarrow> store \<Rightarrow> ptr \<Rightarrow> u32 option" where
  "DecodeFixed32 pf m p =
     (if kLittleEndian pf
      then do { bs \<leftarrow> load_bytes m p 4; Some (word_of_nat (host_val pf bs)) }
      else do {
        b0 \<leftarrow> load_at m p 0;
        b1 \<leftarrow> load_at m p 1;
        b2 \<leftarrow> load_at m p 2;
        b3 \<leftarrow> load_at m p 3;
        Some (ucast b0 OR push_bit 8 (ucast b1) OR push_bit 16 (ucast b2)
              OR push_bit 24 (ucast b3)) })"

definition DecodeFixed64 :: "platform \<Rightarrow> store \<Rightarrow> ptr \<Rightarrow> u64 option" where
  "DecodeFixed64 pf m p =
     (if kLittleEndian pf
      then do { bs \<leftarrow> load_bytes m p 8; Some (word_of_nat (host_val pf bs)) }
      else do {
        lo \<leftarrow> DecodeFixed32 pf m p;
        q \<leftarrow> ptr_add m p 4;
        hi \<leftarrow> DecodeFixed32 pf m q;
        Some (push_bit 32 (ucast hi) OR ucast lo) })"

section \<open>The bytes of a word\<close>

lemma ucast_and_255 [c2_unat]: "(ucast (w AND 255) :: byte) = ucast w" for w :: "'a::len word"
proof -
  have mask: "w AND 255 = w AND mask 8" by (simp add: mask_eq_exp_minus_1)
  show ?thesis
    unfolding mask
    by (rule bit_word_eqI) (auto simp: bit_simps dest: bit_imp_possible_bit)
qed

lemma word_of_nat_mod_256 [c2_unat]: "(word_of_nat (x mod 256) :: byte) = word_of_nat x"
  by (simp add: word_eq_iff_unsigned unat_of_nat take_bit_eq_mod word_unat_eq_iff)

lemma word_of_nat_unat_div [c2_unat]:
  "(word_of_nat (unat w div 2 ^ k) :: byte) = ucast (drop_bit k w)" for w :: "'a::len word"
  by (metis drop_bit_eq_div unat_drop_bit_eq of_nat_unat)

lemma le_bytes_step: "le_bytes (Suc n) (unat w) = ucast w # le_bytes n (unat (drop_bit 8 w))"
  for w :: "'a::len word"
proof -
  have "unat (drop_bit 8 w) = unat w div 256"
    by (simp only: unat_drop_bit_eq drop_bit_eq_div [where 'a = nat]) simp
  moreover have "(word_of_nat (unat w mod 256) :: byte) = ucast w"
    by (simp add: word_of_nat_mod_256)
  ultimately show ?thesis by (simp only: le_bytes.simps)
qed

lemma le_bytes_word:
  fixes w :: "'a::len word"
  shows "le_bytes 2 (unat w) = [ucast w, ucast (drop_bit 8 w)]"
    and "le_bytes 4 (unat w) =
      [ucast w, ucast (drop_bit 8 w), ucast (drop_bit 16 w), ucast (drop_bit 24 w)]"
    and "le_bytes 8 (unat w) =
      [ucast w, ucast (drop_bit 8 w), ucast (drop_bit 16 w), ucast (drop_bit 24 w),
       ucast (drop_bit 32 w), ucast (drop_bit 40 w), ucast (drop_bit 48 w), ucast (drop_bit 56 w)]"
proof -
  have "(2::nat) = Suc (Suc 0)" "(4::nat) = Suc (Suc (Suc (Suc 0)))"
    "(8::nat) = Suc (Suc (Suc (Suc (Suc (Suc (Suc (Suc 0)))))))" by simp_all
  note n = this
  show "le_bytes 2 (unat w) = [ucast w, ucast (drop_bit 8 w)]"
    unfolding n(1) le_bytes_step by simp
  show "le_bytes 4 (unat w) =
      [ucast w, ucast (drop_bit 8 w), ucast (drop_bit 16 w), ucast (drop_bit 24 w)]"
    by (subst n(2)) (simp add: le_bytes_step del: le_bytes.simps(2))
  show "le_bytes 8 (unat w) =
      [ucast w, ucast (drop_bit 8 w), ucast (drop_bit 16 w), ucast (drop_bit 24 w),
       ucast (drop_bit 32 w), ucast (drop_bit 40 w), ucast (drop_bit 48 w), ucast (drop_bit 56 w)]"
    by (subst n(3)) (simp add: le_bytes_step del: le_bytes.simps(2))
qed

section \<open>Both branches write the same bytes\<close>

lemma EncodeFixed16_bytes:
  "load_bytes m buf 2 = Some old \<Longrightarrow> EncodeFixed16 pf m buf v = store_bytes m buf (le_bytes 2 (unat v))"
  by (drule store_at_chain [where vs = "le_bytes 2 (unat v)"])
    (simp add: EncodeFixed16_def host_bytes_def le_bytes_word ucast_and_255)

lemma EncodeFixed32_bytes:
  "load_bytes m buf 4 = Some old \<Longrightarrow> EncodeFixed32 pf m buf v = store_bytes m buf (le_bytes 4 (unat v))"
  by (drule store_at_chain [where vs = "le_bytes 4 (unat v)"])
    (simp add: EncodeFixed32_def host_bytes_def le_bytes_word ucast_and_255)

lemma EncodeFixed64_bytes:
  "load_bytes m buf 8 = Some old \<Longrightarrow> EncodeFixed64 pf m buf v = store_bytes m buf (le_bytes 8 (unat v))"
  by (drule store_at_chain [where vs = "le_bytes 8 (unat v)"])
    (simp add: EncodeFixed64_def host_bytes_def le_bytes_word ucast_and_255)

section \<open>Both branches read the same number\<close>

lemma load_at_nth: "load_bytes m p n = Some bs \<Longrightarrow> k < n \<Longrightarrow> load_at m p (int k) = Some (bs ! k)"
  using load_bytes_nth [of m p n bs k] by (auto simp: load_at_def)

lemma ucast_le_val: "(ucast b OR push_bit 8 (word_of_nat x)) = (word_of_nat (unat b + 256 * x) :: 'a::len word)"
  for b :: byte
  using or_push_bit_nat [of "unat b" 8 x, where 'a = 'a] by simp

lemma le_val_or:
  fixes b0 b1 b2 b3 :: byte
  shows "(ucast b0 OR push_bit 8 (ucast b1) :: 'a::len word) = word_of_nat (le_val [b0, b1])"
    and "(ucast b0 OR push_bit 8 (ucast b1) OR push_bit 16 (ucast b2) OR push_bit 24 (ucast b3)
        :: 'a::len word) = word_of_nat (le_val [b0, b1, b2, b3])"
  unfolding le_val.simps ucast_le_val [symmetric]
  by (simp_all add: push_bit_or or.assoc)

lemma list4_cases:
  assumes "length bs = 4"
  obtains b0 b1 b2 b3 where "bs = [b0, b1, b2, b3]"
  using assms by (auto simp: eval_nat_numeral length_Suc_conv)

lemma DecodeFixed16_val:
  assumes "load_bytes m p 2 = Some bs"
  shows "DecodeFixed16 pf m p = Some (word_of_nat (le_val bs))"
proof -
  obtain b0 b1 where bs: "bs = [b0, b1]"
    using load_bytes_length [OF assms] by (auto simp: eval_nat_numeral length_Suc_conv)
  with assms load_at_nth [OF assms, of 0] load_at_nth [OF assms, of 1] show ?thesis
    by (simp add: DecodeFixed16_def host_val_def le_val_or del: le_val.simps)
qed

lemma DecodeFixed32_val:
  assumes "load_bytes m p 4 = Some bs"
  shows "DecodeFixed32 pf m p = Some (word_of_nat (le_val bs))"
proof -
  obtain b0 b1 b2 b3 where bs: "bs = [b0, b1, b2, b3]"
    using load_bytes_length [OF assms] by (rule list4_cases)
  with assms load_at_nth [OF assms, of 0] load_at_nth [OF assms, of 1]
    load_at_nth [OF assms, of 2] load_at_nth [OF assms, of 3] show ?thesis
    by (simp add: DecodeFixed32_def host_val_def le_val_or del: le_val.simps)
qed

lemma le_val_append: "le_val (xs @ ys) = le_val xs + 256 ^ length xs * le_val ys"
  by (induction xs) (auto simp: algebra_simps)

lemma ucast_word_of_nat_u32: "x < 2 ^ 32 \<Longrightarrow> (ucast (word_of_nat x :: u32) :: u64) = word_of_nat x"
  by (simp add: word_unat_eq_iff unsigned_ucast_eq unat_of_nat take_bit_nat_eq_self)

lemma DecodeFixed64_val:
  assumes "load_bytes m p 8 = Some bs"
  shows "DecodeFixed64 pf m p = Some (word_of_nat (le_val bs))"
proof -
  let ?lo = "take 4 bs" and ?hi = "drop 4 bs"
  have len: "length ?lo = 4" "length ?hi = 4" using load_bytes_length [OF assms] by simp_all
  have lo: "load_bytes m p 4 = Some ?lo" using load_bytes_take [OF assms, of 4] by simp
  obtain q where q: "ptr_add m p 4 = Some q" and hi: "load_bytes m q 4 = Some ?hi"
    using load_bytes_drop [OF assms, of 4] by auto
  have less: "le_val ?lo < 2 ^ 32" "le_val ?hi < 2 ^ 32"
    using le_val_less [of ?lo] le_val_less [of ?hi] unfolding len by simp_all
  have "le_val bs = le_val ?lo + 2 ^ 32 * le_val ?hi"
    using le_val_append [of ?lo ?hi] len by simp
  then have "(word_of_nat (le_val ?lo) OR push_bit 32 (word_of_nat (le_val ?hi)) :: u64) =
      word_of_nat (le_val bs)"
    using or_push_bit_nat [OF less(1)] by (simp only:)
  with assms lo q hi less show ?thesis
    by (simp add: DecodeFixed64_def DecodeFixed32_val host_val_def ucast_word_of_nat_u32
        or.commute)
qed

section \<open>Interpretations\<close>

lemma PutFixed32_appends: "PutFixed32 pf m dst v = Some (dst @ le_bytes 4 (unat v))"
proof -
  obtain m1 buf where a: "alloc m 4 = (m1, buf)" by fastforce
  with load_bytes_alloc [of m 4] have ld: "load_bytes m1 buf 4 = Some (replicate 4 (fill m))" by simp
  then obtain m2 where m2: "store_bytes m1 buf (le_bytes 4 (unat v)) = Some m2"
    using store_bytes_valid by (metis length_le_bytes order_refl)
  show ?thesis
    using load_store_bytes [OF m2] by (simp add: PutFixed32_def a EncodeFixed32_bytes [OF ld] m2)
qed

lemma PutFixed64_appends: "PutFixed64 pf m dst v = Some (dst @ le_bytes 8 (unat v))"
proof -
  obtain m1 buf where a: "alloc m 8 = (m1, buf)" by fastforce
  with load_bytes_alloc [of m 8] have ld: "load_bytes m1 buf 8 = Some (replicate 8 (fill m))" by simp
  then obtain m2 where m2: "store_bytes m1 buf (le_bytes 8 (unat v)) = Some m2"
    using store_bytes_valid by (metis length_le_bytes order_refl)
  show ?thesis
    using load_store_bytes [OF m2] by (simp add: PutFixed64_def a EncodeFixed64_bytes [OF ld] m2)
qed

lemma word_of_le_val_le_bytes:
  fixes v :: "'a::len word"
  shows "LENGTH('a) = 8 * n \<Longrightarrow> word_of_nat (le_val (le_bytes n (unat v))) = v"
proof -
  assume "LENGTH('a) = 8 * n"
  then have "unat v < 256 ^ n" using unsigned_less [of v, where 'a = nat] by (simp add: power_mult)
  then show ?thesis by (simp add: le_val_le_bytes)
qed

interpretation fixed32: fixed_codec "PutFixed32 pf" "\<lambda>v. le_bytes 4 (unat v)" "DecodeFixed32 pf'" 4
  for pf pf'
  by unfold_locales (simp_all add: PutFixed32_appends DecodeFixed32_val word_of_le_val_le_bytes)

interpretation fixed64: fixed_codec "PutFixed64 pf" "\<lambda>v. le_bytes 8 (unat v)" "DecodeFixed64 pf'" 8
  for pf pf'
  by unfold_locales (simp_all add: PutFixed64_appends DecodeFixed64_val word_of_le_val_le_bytes)

section \<open>Properties\<close>

text \<open>
  The encodings do not depend on the byte order of the machine: on every platform the three
  encoders write the bytes of the value least significant first into the buffer and touch
  nothing else.
\<close>

lemma encode_fixed_endian_neutral:
  "(load_bytes m buf 2 = Some oh \<longrightarrow>
      EncodeFixed16 pf m buf h = store_bytes m buf (le_bytes 2 (unat h))) \<and>
   (load_bytes m buf 4 = Some ow \<longrightarrow>
      EncodeFixed32 pf m buf w = store_bytes m buf (le_bytes 4 (unat w))) \<and>
   (load_bytes m buf 8 = Some od \<longrightarrow>
      EncodeFixed64 pf m buf d = store_bytes m buf (le_bytes 8 (unat d)))"
  by (simp add: EncodeFixed16_bytes EncodeFixed32_bytes EncodeFixed64_bytes)

lemma encode_fixed_endian_neutral_witness:
  "EncodeFixed32 \<lparr>kLittleEndian = False, NDEBUG = True\<rparr> (store_of [0, 0, 0, 0, 9]) (Ptr 1 0) 0x01020304
   = Some (store_of [4, 3, 2, 1, 9])"
proof -
  have "load_bytes (store_of [0, 0, 0, 0, 9]) (Ptr 1 0) 4 = Some [0, 0, 0, 0]" by simp
  with encode_fixed_endian_neutral [where m = "store_of [0, 0, 0, 0, 9]" and buf = "Ptr 1 0"
      and w = "0x01020304" and pf = "\<lparr>kLittleEndian = False, NDEBUG = True\<rparr>"]
  have "EncodeFixed32 \<lparr>kLittleEndian = False, NDEBUG = True\<rparr> (store_of [0, 0, 0, 0, 9]) (Ptr 1 0)
      0x01020304 = store_bytes (store_of [0, 0, 0, 0, 9]) (Ptr 1 0) (le_bytes 4 (unat (0x01020304 :: u32)))"
    by blast
  then show ?thesis unfolding le_bytes_word by (simp add: store_of_def fun_eq_iff)
qed

text \<open>
  C15: 16-, 32- and 64-bit values encoded on one platform decode to themselves on any other,
  whatever the byte orders of the two are.
\<close>

theorem fixed_roundtrip_across_platforms:
  "(EncodeFixed16 pf m buf h = Some m2 \<and> load_bytes m buf 2 \<noteq> None \<longrightarrow>
      DecodeFixed16 pf' m2 buf = Some h) \<and>
   (EncodeFixed32 pf m buf w = Some m4 \<and> load_bytes m buf 4 \<noteq> None \<longrightarrow>
      DecodeFixed32 pf' m4 buf = Some w) \<and>
   (EncodeFixed64 pf m buf d = Some m8 \<and> load_bytes m buf 8 \<noteq> None \<longrightarrow>
      DecodeFixed64 pf' m8 buf = Some d)"
  using load_store_bytes [of m buf "le_bytes 2 (unat h)" m2]
    load_store_bytes [of m buf "le_bytes 4 (unat w)" m4]
    load_store_bytes [of m buf "le_bytes 8 (unat d)" m8]
  by (auto simp: EncodeFixed16_bytes EncodeFixed32_bytes EncodeFixed64_bytes
      DecodeFixed16_val DecodeFixed32_val DecodeFixed64_val word_of_le_val_le_bytes)

theorem fixed_roundtrip_across_platforms_witness:
  "\<exists>m4. EncodeFixed32 \<lparr>kLittleEndian = False, NDEBUG = True\<rparr> (store_of [0, 0, 0, 0]) (Ptr 1 0) 0xCAFE
      = Some m4 \<and> DecodeFixed32 \<lparr>kLittleEndian = True, NDEBUG = True\<rparr> m4 (Ptr 1 0) = Some 0xCAFE"
proof -
  let ?m = "store_of [0, 0, 0, 0]"
  have ld: "load_bytes ?m (Ptr 1 0) 4 = Some [0, 0, 0, 0]" by simp
  then obtain m4 where "EncodeFixed32 \<lparr>kLittleEndian = False, NDEBUG = True\<rparr> ?m (Ptr 1 0) 0xCAFE = Some m4"
    using store_bytes_valid [OF ld, of "le_bytes 4 (unat (0xCAFE :: u32))"]
    by (auto simp: EncodeFixed32_bytes)
  with ld fixed_roundtrip_across_platforms [where m = ?m and buf = "Ptr 1 0" and w = "0xCAFE"
      and pf = "\<lparr>kLittleEndian = False, NDEBUG = True\<rparr>" and pf' = "\<lparr>kLittleEndian = True, NDEBUG = True\<rparr>"]
  show ?thesis by blast
qed

text \<open>
  A string filled by \<open>PutFixed32\<close> is an array: the \<open>i\<close>-th value is what \<open>DecodeFixed32\<close> reads
  at offset \<open>4 i\<close> of a copy of the string, on any other platform; and so for 64 bits at \<open>8 i\<close>.
\<close>

lemma put_fixed_random_access:
  assumes "put_all (PutFixed32 pf) m [] vs = Some out" "load_bytes m' p n = Some out" "i < length vs"
    and "put_all (PutFixed64 pf) m [] ws = Some out'" "load_bytes m' p' n' = Some out'" "j < length ws"
  shows "(\<exists>q. ptr_add m' p (int (4 * i)) = Some q \<and> DecodeFixed32 pf' m' q = Some (vs ! i)) \<and>
         (\<exists>q. ptr_add m' p' (int (8 * j)) = Some q \<and> DecodeFixed64 pf' m' q = Some (ws ! j))"
  using fixed32.array_roundtrip [OF assms(1-3)] fixed64.array_roundtrip [OF assms(4-6)] by simp

lemma put_fixed_random_access_witness:
  "\<exists>q. ptr_add (store_of (le_bytes 4 7 @ le_bytes 4 11 @ le_bytes 8 13)) (Ptr 1 0) 4 = Some q \<and>
     DecodeFixed32 \<lparr>kLittleEndian = False, NDEBUG = True\<rparr> (store_of (le_bytes 4 7 @ le_bytes 4 11 @ le_bytes 8 13)) q = Some 11"
proof -
  let ?m = "store_of (le_bytes 4 7 @ le_bytes 4 11 @ le_bytes 8 13)"
  have "put_all (PutFixed32 pf) empty_store [] [7, 11] = Some (le_bytes 4 7 @ le_bytes 4 11)"
    "put_all (PutFixed64 pf) empty_store [] [13] = Some (le_bytes 8 13)" for pf
    by (simp_all add: PutFixed32_appends PutFixed64_appends)
  moreover have "load_bytes ?m (Ptr 1 0) 8 = Some (le_bytes 4 7 @ le_bytes 4 11)"
    "load_bytes ?m (Ptr 1 8) 8 = Some (le_bytes 8 13)" by simp_all
  ultimately show ?thesis
    using put_fixed_random_access [where pf' = "\<lparr>kLittleEndian = False, NDEBUG = True\<rparr>" and i = 1 and j = 0 and vs = "[7, 11]" and ws = "[13]"
        and m = empty_store and m' = ?m and p = "Ptr 1 0" and p' = "Ptr 1 8" and n = 8 and n' = 8]
    by fastforce
qed

end
