(* ===== verification/C2_Random.thy ===== *)
theory C2_Random
  imports C2_Prelude
begin

text \<open>
  \<open>Random\<close> (\<open>c2_random.h\<close>): the Lehmer generator modulo the Mersenne number \<open>M = 2 ^ 31 - 1\<close> with
  the multiplier 16807. The reduction by shift, mask and one subtraction is proved to be the
  remainder; \<open>C2_RandomCycle\<close> shows that the sequence is one cycle.
\<close>

section \<open>Operations\<close>

record Random =
  rnd_seed :: u32

definition Random_new :: "u32 \<Rightarrow> Random" where
  "Random_new s =
     (let seed = s AND 0x7fffffff in
      \<lparr>rnd_seed = (if seed = 0 \<or> seed = 2147483647 then 1 else seed)\<rparr>)"

definition Random_Next :: "Random \<Rightarrow> Random \<times> u32" where
  "Random_Next r =
     (let M = (2147483647 :: u32);
          A = (16807 :: u64);
          product = ucast (rnd_seed r) * A;
          seed = (ucast (drop_bit 31 product + (product AND ucast M)) :: u32);
          seed = (if seed > M then seed - M else seed)
      in (r\<lparr>rnd_seed := seed\<rparr>, seed))"

text \<open>
  \<open>Next() % n\<close> with an \<open>int n\<close>: \<open>n\<close> is converted to \<open>uint32_t\<close>; the remainder by zero has no
  result.
\<close>

definition Random_Uniform :: "Random \<Rightarrow> u32 \<Rightarrow> (Random \<times> u32) option" where
  "Random_Uniform r n =
     (let (r, x) = Random_Next r in if n = 0 then None else Some (r, x mod n))"

text \<open>
  \<open>max_log + 1\<close> is signed and must not overflow, and a shift of an \<open>int\<close> by 32 or more has no
  result; \<open>1 << 31\<close> is the \<open>int\<close> with that bit only.
\<close>

definition Random_Skewed :: "Random \<Rightarrow> u32 \<Rightarrow> (Random \<times> u32) option" where
  "Random_Skewed r max_log =
     (if max_log = 0x7fffffff then None
      else do { (r, base) \<leftarrow> Random_Uniform r (max_log + 1);
                if base \<ge> 32 then None
                else Random_Uniform r (push_bit (unat base) 1) })"

definition Random_OneIn :: "Random \<Rightarrow> u32 \<Rightarrow> (Random \<times> bool) option" where
  "Random_OneIn r n =
     (let (r, x) = Random_Next r in if n = 0 then None else Some (r, x mod n = 0))"

definition Random_Next64 :: "Random \<Rightarrow> Random \<times> u64" where
  "Random_Next64 r =
     (let (r, L) = Random_Next r; (r, H) = Random_Next r
      in (r, (ucast L :: u64) OR push_bit 32 (ucast H)))"

text \<open>The seed after \<open>n\<close> calls of \<open>Next\<close>.\<close>

fun Random_Nexts :: "nat \<Rightarrow> Random \<Rightarrow> Random" where
  "Random_Nexts 0 r = r"
| "Random_Nexts (Suc n) r = fst (Random_Next (Random_Nexts n r))"

lemma Nexts_Next: "Random_Nexts (Suc n) r = Random_Nexts n (fst (Random_Next r))"
  by (induction n) simp_all

section \<open>The invariant\<close>

abbreviation M31 :: nat where
  "M31 \<equiv> 2147483647"

definition valid_seed :: "Random \<Rightarrow> bool" where
  "valid_seed r \<longleftrightarrow> 0 < unat (rnd_seed r) \<and> unat (rnd_seed r) < M31"

lemma mask_31: "(2147483647 :: 'a::len word) = mask 31"
  by (simp add: mask_eq_exp_minus_1)

lemma unat_and_mask_31: "unat (w AND 2147483647) = unat w mod 2 ^ 31" for w :: "'a::len word"
  unfolding mask_31 take_bit_eq_mask [symmetric] unsigned_take_bit_eq
  by (simp only: take_bit_eq_mod)

lemma valid_seed_new: "valid_seed (Random_new s)"
proof -
  let ?w = "s AND 0x7fffffff"
  have less: "unat ?w < 2 ^ 31" unfolding unat_and_mask_31 by simp
  have "?w = 0 \<longleftrightarrow> unat ?w = 0" "?w = 2147483647 \<longleftrightarrow> unat ?w = 2147483647"
    by (simp_all add: word_unat_eq_iff)
  with less show ?thesis by (auto simp: valid_seed_def Random_new_def Let_def)
qed

text \<open>16807 is invertible modulo \<open>M\<close>, so a seed below \<open>M\<close> never becomes a multiple of \<open>M\<close>.\<close>

lemma mult_not_0: "0 < s \<Longrightarrow> s < M31 \<Longrightarrow> s * 16807 mod M31 \<noteq> 0"
proof
  assume s: "0 < s" "s < M31" and "s * 16807 mod M31 = 0"
  then obtain k where "s * 16807 = M31 * k" by auto
  then have "s * (1 + 11017 * M31) = M31 * (k * 1407677000)" by (simp add: algebra_simps)
  then have "s = M31 * (k * 1407677000 - s * 11017)" by (simp add: algebra_simps)
  with s show False by (metis dvd_triv_left nat_dvd_not_less)
qed

lemma unat_Next:
  assumes "valid_seed r"
  shows "unat (rnd_seed (fst (Random_Next r))) = unat (rnd_seed r) * 16807 mod M31"
proof -
  define s where "s = unat (rnd_seed r)"
  define p where "p = s * 16807"
  define x where "x = p div 2 ^ 31 + p mod 2 ^ 31"
  have s: "0 < s" "s < M31" using assms by (simp_all add: valid_seed_def s_def)
  have p_less: "p < 2 ^ 31 * 16807" unfolding p_def using s(2) by simp
  then have x_less: "x < 2 ^ 31 + 16807"
    unfolding x_def using mod_less_divisor [of "2 ^ 31" p] less_mult_imp_div_less [of p 16807 "2 ^ 31"]
    by (simp add: mult.commute)
  have "p = (p div 2 ^ 31) * M31 + x"
    unfolding x_def using div_mult_mod_eq [of p "2 ^ 31"] by simp
  then have mod: "p mod M31 = x mod M31" by (metis mod_mult_self3)
  have not0: "x mod M31 \<noteq> 0" using mult_not_0 [OF s] mod by (simp add: p_def)
  let ?product = "(ucast (rnd_seed r) :: u64) * 16807"
  let ?w = "ucast (drop_bit 31 ?product + (?product AND 2147483647)) :: u32"
  have prod: "unat ?product = p"
    using p_less by (simp add: unat_word_ariths p_def s_def)
  have "unat (drop_bit 31 ?product) = p div 2 ^ 31" "unat (?product AND 2147483647) = p mod 2 ^ 31"
    unfolding unat_and_mask_31 unat_drop_bit_eq prod by (simp_all only: drop_bit_eq_div)
  then have "unat (drop_bit 31 ?product + (?product AND 2147483647)) = x"
    using x_less unfolding unat_plus_if' by (simp only: x_def) simp
  then have w: "unat ?w = x" using x_less by (simp add: unsigned_ucast_eq take_bit_nat_eq_self)
  have "unat (if ?w > 2147483647 then ?w - 2147483647 else ?w) = x mod M31"
  proof (cases "x > M31")
    case True
    then have "?w > 2147483647" by (simp add: word_less_nat_alt w)
    with True x_less show ?thesis by (simp add: unat_sub_if' w mod_if)
  next
    case False
    then have "\<not> ?w > 2147483647" by (simp add: word_less_nat_alt w)
    moreover have "x < M31" using False not0 by (cases "x = M31") auto
    ultimately show ?thesis by (simp add: w)
  qed
  then show ?thesis using mod by (auto simp: Random_Next_def Let_def p_def s_def split: if_splits)
qed

lemma valid_seed_Next: "valid_seed r \<Longrightarrow> valid_seed (fst (Random_Next r))"
  using mult_not_0 [of "unat (rnd_seed r)"] by (simp add: valid_seed_def unat_Next)

lemma snd_Next: "snd (Random_Next r) = rnd_seed (fst (Random_Next r))"
  by (simp add: Random_Next_def Let_def)

lemma Nexts_power:
  assumes "valid_seed r"
  shows "unat (rnd_seed (Random_Nexts n r)) = unat (rnd_seed r) * 16807 ^ n mod M31 \<and>
    valid_seed (Random_Nexts n r)"
proof (induction n)
  case 0
  with assms show ?case by (simp add: valid_seed_def)
next
  case (Suc n)
  then show ?case
    using unat_Next [of "Random_Nexts n r"] valid_seed_Next [of "Random_Nexts n r"]
    using mod_mult_right_eq [of 16807 "unat (rnd_seed r) * 16807 ^ n" M31]
    by (simp add: ac_simps)
qed

section \<open>Derived draws\<close>

lemma Uniform_eq:
  "n \<noteq> 0 \<Longrightarrow> Random_Uniform r n = Some (fst (Random_Next r), snd (Random_Next r) mod n)"
  by (simp add: Random_Uniform_def split: prod.splits)

lemma unat_mod_less: "n \<noteq> 0 \<Longrightarrow> unat (x mod n) < unat n" for x n :: u32
  by (simp add: unat_mod_distrib unat_gt_0 pos_mod_bound)

text \<open>\<open>Skewed\<close> takes the number of its bits from the first draw, and the bits from the second.\<close>

lemma Skewed_eq:
  assumes "unat max_log \<le> 31"
  shows "\<exists>x. Random_Skewed r max_log = Some (fst (Random_Next (fst (Random_Next r))), x) \<and>
    unat x = unat (snd (Random_Next (fst (Random_Next r)))) mod
      2 ^ (unat (snd (Random_Next r)) mod (unat max_log + 1))"
proof -
  have log: "unat (max_log + 1) = unat max_log + 1" "max_log \<noteq> 0x7fffffff"
    using assms by (auto simp: unat_word_ariths)
  then have pos: "max_log + 1 \<noteq> 0" by (metis Suc_eq_plus1 nat.distinct(1) unat_0)
  define base where "base = snd (Random_Next r) mod (max_log + 1)"
  have base_eq: "unat base = unat (snd (Random_Next r)) mod (unat max_log + 1)"
    by (simp add: base_def unat_mod_distrib log(1))
  have base: "unat base \<le> unat max_log"
    using unat_mod_less [OF pos] log(1) unfolding base_def by (metis Suc_eq_plus1 less_Suc_eq_le)
  then have "unat base < 32" using assms by simp
  then have "2 ^ unat base < (2 ^ 32 :: nat)" by (intro power_strict_increasing) simp_all
  moreover have "push_bit (unat base) (1 :: u32) = word_of_nat (2 ^ unat base)"
    by (simp add: push_bit_eq_mult)
  ultimately have shift: "unat (push_bit (unat base) (1 :: u32)) = 2 ^ unat base"
    by (simp add: unat_of_nat take_bit_nat_eq_self del: of_nat_power)
  define w where "w = push_bit (unat base) (1 :: u32)"
  have "\<not> base \<ge> 32" using \<open>unat base < 32\<close> by (simp add: word_le_nat_alt)
  then have run: "Random_Skewed r max_log = Random_Uniform (fst (Random_Next r)) w"
    using log(2) by (simp add: Random_Skewed_def Uniform_eq [OF pos] w_def flip: base_def)
  have w: "unat w = 2 ^ unat base" using shift by (simp only: w_def)
  then have nz: "w \<noteq> 0" by (metis power_eq_0_iff unat_0 zero_neq_numeral)
  show ?thesis
    by (simp add: run Uniform_eq [OF nz] unat_mod_distrib w base_eq)
qed

lemma Skewed_base:
  "unat max_log \<le> 31 \<Longrightarrow> \<exists>r' x. Random_Skewed r max_log = Some (r', x) \<and>
    unat x < 2 ^ (unat (snd (Random_Next r)) mod (unat max_log + 1))"
  using Skewed_eq [of max_log r] by auto

lemma Skewed_below:
  assumes "unat max_log \<le> 31" "unat (snd (Random_Next r)) mod (unat max_log + 1) \<le> b"
  shows "\<exists>r' x. Random_Skewed r max_log = Some (r', x) \<and> unat x < 2 ^ b"
proof -
  obtain r' x where "Random_Skewed r max_log = Some (r', x)"
      "unat x < 2 ^ (unat (snd (Random_Next r)) mod (unat max_log + 1))"
    using Skewed_base [OF assms(1)] by blast
  moreover have "(2 :: nat) ^ (unat (snd (Random_Next r)) mod (unat max_log + 1)) \<le> 2 ^ b"
    using assms(2) by (rule power_increasing) simp
  ultimately show ?thesis by (meson less_le_trans)
qed

lemma Skewed_range:
  assumes "unat max_log \<le> 31"
  shows "\<exists>r' x. Random_Skewed r max_log = Some (r', x) \<and> unat x < 2 ^ unat max_log"
  by (rule Skewed_below [OF assms]) (simp add: less_Suc_eq_le [symmetric])

lemma Uniform_state: "Random_Uniform r n = Some (r', x) \<Longrightarrow> r' = fst (Random_Next r)"
  by (auto simp: Random_Uniform_def split: prod.splits if_splits)

lemma Skewed_valid:
  assumes "valid_seed r" "Random_Skewed r max_log = Some (r', x)"
  shows "valid_seed r'"
proof -
  obtain r1 b n where "Random_Uniform r (max_log + 1) = Some (r1, b)" "Random_Uniform r1 n = Some (r', x)"
    using assms(2) by (auto simp: Random_Skewed_def bind_Some_iff split: if_splits)
  then have "r' = fst (Random_Next (fst (Random_Next r)))" by (metis Uniform_state)
  with assms(1) show ?thesis by (simp add: valid_seed_Next)
qed

section \<open>Properties\<close>

text \<open>
  C19: every seed the constructor accepts is turned into one from 1 to \<open>M - 1\<close>, and \<open>Next\<close>, with
  its shift, mask and single subtraction, is multiplication by 16807 modulo \<open>2 ^ 31 - 1\<close>: it
  returns the new seed, again from 1 to \<open>M - 1\<close>.
\<close>

theorem random_next_modular:
  assumes "valid_seed r"
  shows "valid_seed (Random_new s) \<and>
    unat (snd (Random_Next r)) = unat (rnd_seed r) * 16807 mod (2 ^ 31 - 1) \<and>
    rnd_seed (fst (Random_Next r)) = snd (Random_Next r) \<and> valid_seed (fst (Random_Next r))"
  using unat_Next [OF assms] valid_seed_Next [OF assms] valid_seed_new by (simp add: snd_Next)

theorem random_next_modular_witness: "unat (snd (Random_Next (Random_new 0))) = 16807"
proof -
  have "valid_seed (Random_new 0)" "unat (rnd_seed (Random_new 0)) = 1"
    by (simp_all add: valid_seed_def Random_new_def)
  with random_next_modular [of "Random_new 0"] show ?thesis by simp
qed

text \<open>
  The ranges of the derived draws: \<open>Uniform(n)\<close> is below \<open>n\<close> for a non-zero \<open>n\<close>, and
  \<open>Skewed(max_log)\<close> is below \<open>2 ^ max_log\<close> and never divides by zero or shifts too far, for every
  \<open>max_log\<close> up to 31; \<open>OneIn(n)\<close> says whether the same draw of \<open>Uniform(n)\<close> is 0.
\<close>

lemma random_ranges:
  assumes "n \<noteq> 0" "unat max_log \<le> 31"
  shows "(\<exists>r' x. Random_Uniform r n = Some (r', x) \<and> x < n \<and>
      Random_OneIn r n = Some (r', x = 0)) \<and>
    (\<exists>r' x. Random_Skewed r max_log = Some (r', x) \<and> unat x < 2 ^ unat max_log)"
proof
  show "\<exists>r' x. Random_Uniform r n = Some (r', x) \<and> x < n \<and> Random_OneIn r n = Some (r', x = 0)"
    using assms(1) unat_mod_less [OF assms(1)]
    by (simp add: Uniform_eq Random_OneIn_def word_less_nat_alt split: prod.splits)
next
  show "\<exists>r' x. Random_Skewed r max_log = Some (r', x) \<and> unat x < 2 ^ unat max_log"
    using assms(2) by (rule Skewed_range)
qed

lemma random_ranges_witness:
  "\<exists>r' x. Random_Skewed (Random_new 7) 10 = Some (r', x) \<and> unat x < 1024"
proof -
  have "(5 :: u32) \<noteq> 0" "unat (10 :: u32) \<le> 31" by simp_all
  from random_ranges [OF this, of "Random_new 7"] show ?thesis by simp
qed

text \<open>
  \<open>Next64\<close> puts two successive draws side by side; as each has 31 bits, bits 31 and 63 of the
  result are never set.
\<close>

lemma random_next64_bits:
  assumes "valid_seed r"
  shows "(let r1 = fst (Random_Next r) in
      unat (snd (Random_Next64 r)) = unat (snd (Random_Next r)) + 2 ^ 32 * unat (snd (Random_Next r1))) \<and>
    \<not> bit (snd (Random_Next64 r)) 31 \<and> \<not> bit (snd (Random_Next64 r)) 63"
proof -
  let ?r1 = "fst (Random_Next r)"
  let ?L = "snd (Random_Next r)" and ?H = "snd (Random_Next ?r1)"
  have less: "unat ?L < 2 ^ 31" "unat ?H < 2 ^ 31"
    using valid_seed_Next [OF assms] valid_seed_Next [OF valid_seed_Next [OF assms]]
    by (simp_all add: valid_seed_def snd_Next)
  have n: "snd (Random_Next64 r) = (ucast ?L :: u64) OR push_bit 32 (ucast ?H)"
    by (simp add: Random_Next64_def Let_def split: prod.splits)
  have "(ucast ?L :: u64) OR push_bit 32 (ucast ?H) = ucast ?L + 2 ^ 32 * ucast ?H"
    using less by (intro or_push_bit_eq_add) simp
  then have "unat (snd (Random_Next64 r)) = unat ?L + 2 ^ 32 * unat ?H"
    using less unfolding n by (simp add: unat_word_ariths)
  moreover have "\<not> bit (snd (Random_Next64 r)) 31" "\<not> bit (snd (Random_Next64 r)) 63"
    unfolding n using less
    by (simp_all add: bit_simps not_bit_unat_less [where k = 31])
  ultimately show ?thesis by (simp add: Let_def)
qed

lemma random_next64_bits_witness:
  "\<not> bit (snd (Random_Next64 (Random_new 42))) 63"
  using random_next64_bits [OF valid_seed_new [of 42]] by blast

end
