(* ===== verification/C2_RandomCycle.thy ===== *)
theory C2_RandomCycle
  imports C2_Random
begin

text \<open>
  The sequence of \<open>Random::Next\<close> is one cycle through every number from 1 to \<open>M - 1\<close>: the order of
  16807 modulo \<open>M\<close> is \<open>M - 1\<close>, by the factorisation of \<open>M - 1\<close> and the powers of 16807 that it
  calls for, which are computed by repeated squaring. That \<open>M\<close> is prime is not needed.
\<close>

section \<open>The order of the multiplier\<close>

text \<open>Powers modulo \<open>M\<close> by repeated squaring, along the binary digits of the exponent.\<close>

fun pow_num :: "nat \<Rightarrow> num \<Rightarrow> nat" where
  "pow_num a num.One = a mod M31"
| "pow_num a (num.Bit0 n) = (pow_num a n)\<^sup>2 mod M31"
| "pow_num a (num.Bit1 n) = ((pow_num a n)\<^sup>2 mod M31) * a mod M31"

lemma square_mod: "(x mod n)\<^sup>2 mod n = x * x mod n" for x n :: nat
  by (simp only: power_mod) (simp only: power2_eq_square)

lemma pow_num: "a ^ numeral k mod M31 = pow_num a k"
proof (induction k)
  case One
  then show ?case by simp
next
  case (Bit0 k)
  show ?case unfolding pow_num.simps Bit0 [symmetric] square_mod
    by (simp only: numeral_Bit0 [of k] power_add)
next
  case (Bit1 k)
  show ?case unfolding pow_num.simps Bit1 [symmetric] square_mod mod_mult_left_eq
    by (simp only: numeral_Bit1 [of k] power_add power_one_right)
qed

lemma power_order: "16807 ^ 2147483646 mod M31 = 1"
  by (simp only: pow_num) simp

text \<open>
  The prime factors of \<open>M - 1\<close> (3 occurs twice), and the powers of 16807 by their cofactors.
\<close>

definition order_primes :: "nat list" where
  "order_primes = [2, 3, 7, 11, 31, 151, 331]"

lemma powers_of_16807:
  "16807 ^ 1073741823 mod M31 \<noteq> 1"
  "16807 ^ 715827882 mod M31 \<noteq> 1"
  "16807 ^ 306783378 mod M31 \<noteq> 1"
  "16807 ^ 195225786 mod M31 \<noteq> 1"
  "16807 ^ 69273666 mod M31 \<noteq> 1"
  "16807 ^ 14221746 mod M31 \<noteq> 1"
  "16807 ^ 6487866 mod M31 \<noteq> 1"
  by (simp only: pow_num; simp)+

lemma order_power_ne:
  assumes "p \<in> set order_primes" "p * n = 2147483646"
  shows "16807 ^ n mod M31 \<noteq> 1"
proof -
  have "0 < p" using assms(1) by (auto simp: order_primes_def)
  then have n: "n = 2147483646 div p" by (simp flip: assms(2))
  have "n \<in> set [1073741823, 715827882, 306783378, 195225786, 69273666, 14221746, 6487866]"
    using assms(1) unfolding n order_primes_def by auto
  then consider "n = 1073741823" | "n = 715827882" | "n = 306783378" | "n = 195225786"
    | "n = 69273666" | "n = 14221746" | "n = 6487866"
    by auto
  then show ?thesis by cases (simp_all only: powers_of_16807 not_False_eq_True)
qed

text \<open>A factor of a number up to 331, or its cofactor, is at most 18: trial division up to there.\<close>

lemma order_primes_dvd:
  assumes p: "p \<in> set order_primes"
  shows "p dvd q \<or> coprime q p"
proof -
  have trial: "list_all (\<lambda>p. list_all (\<lambda>t. p mod t = 0 \<longrightarrow> t = 1 \<or> t = p) [1..<19]) order_primes"
    unfolding order_primes_def by code_simp
  have small: "t = 1 \<or> t = p" if "t dvd p" "t < 19" for t
  proof -
    have "0 < t" using that p by (auto simp: order_primes_def intro: Nat.gr0I)
    with trial p that show ?thesis by (auto simp: list_all_iff)
  qed
  define g where "g = gcd q p"
  obtain h where h: "p = g * h" unfolding g_def by (metis dvdE gcd_dvd2)
  have pos: "0 < p" "p \<le> 331" using p by (auto simp: order_primes_def)
  have "g < 19 \<or> h < 19"
  proof (rule ccontr)
    assume "\<not> ?thesis"
    then have "19 * 19 \<le> g * h" by (intro mult_le_mono) simp_all
    with h pos show False by simp
  qed
  then have "g = 1 \<or> g = p"
    using small [of g] small [of h] h pos by auto
  then show ?thesis
    unfolding g_def by (metis coprime_iff_gcd_eq_1 gcd_dvd1)
qed

lemma order_factor:
  assumes "q dvd 2147483646" "q \<noteq> 1"
  shows "\<exists>p \<in> set order_primes. p dvd (q :: nat)"
proof (rule ccontr)
  assume "\<not> ?thesis"
  then have cop: "\<forall>p \<in> set order_primes. coprime q p" using order_primes_dvd by blast
  have "(2147483646 :: nat) = 2 * (3 * (3 * (7 * (11 * (31 * (151 * 331))))))" by simp
  moreover have "coprime q (2 * (3 * (3 * (7 * (11 * (31 * (151 * 331)))))))"
    using cop unfolding order_primes_def by (simp only: coprime_mult_right_iff) simp
  ultimately have "coprime q 2147483646" by (simp only:)
  with assms show False by (metis coprime_common_divisor_nat dvd_refl)
qed

lemma power_mod_1: "(a :: nat) ^ d mod M31 = 1 \<Longrightarrow> a ^ (d * k) mod M31 = 1"
  using power_mod [of "a ^ d" M31 k] by (simp add: power_mult)

lemma order_16807:
  assumes "0 < d" "16807 ^ d mod M31 = 1"
  shows "2147483646 \<le> d"
proof -
  define e where "e = (LEAST e. 0 < e \<and> 16807 ^ e mod M31 = 1)"
  have e: "0 < e" "16807 ^ e mod M31 = 1" "e \<le> d"
    using LeastI [of "\<lambda>e. 0 < e \<and> 16807 ^ e mod M31 = 1" d] assms
    by (auto simp: e_def intro: Least_le)
  define r where "r = (2147483646 :: nat) mod e"
  have "(2147483646 :: nat) = e * (2147483646 div e) + r" by (simp add: r_def)
  then have "16807 ^ r * 16807 ^ (e * (2147483646 div e)) mod M31 = 1"
    using power_order by (metis mult.commute power_add)
  then have "16807 ^ r mod M31 = 1"
    using power_mod_1 [OF e(2), of "2147483646 div e"] by (metis mod_mult_right_eq mult.right_neutral)
  moreover have "r < e" using e(1) by (simp add: r_def)
  ultimately have "r = 0" using not_less_Least [of r "\<lambda>e. 0 < e \<and> 16807 ^ e mod M31 = 1"]
    by (auto simp: e_def)
  then obtain q where q: "2147483646 = e * q" unfolding r_def by (metis dvd_eq_mod_eq_0 dvdE)
  have "q = 1"
  proof (rule ccontr)
    assume "q \<noteq> 1"
    then obtain p k where p: "p \<in> set order_primes" "q = p * k"
      using order_factor [of q] q by (auto elim!: dvdE)
    then have "p * (e * k) = 2147483646" using q by (simp add: mult.left_commute)
    from order_power_ne [OF p(1) this] power_mod_1 [OF e(2)] show False by blast
  qed
  with q e(3) show ?thesis by simp
qed

section \<open>The full cycle\<close>

definition period :: nat where
  "period = 2147483646"

lemma less_M31_iff: "0 < x \<and> x < M31 \<longleftrightarrow> x \<in> {1..period}"
  by (auto simp: period_def)

lemma cancel_power:
  assumes "x * 16807 ^ k mod M31 = y * 16807 ^ k mod M31"
  shows "x mod M31 = y mod M31"
proof -
  have "(16807 * 1407677000 mod M31) ^ k mod M31 = 1" by simp
  then have inv: "(16807 * 1407677000) ^ k mod M31 = 1" by (simp only: power_mod)
  have "z * 16807 ^ k * 1407677000 ^ k mod M31 = z mod M31" for z
  proof -
    have "z * 16807 ^ k * 1407677000 ^ k mod M31 = z * (16807 * 1407677000) ^ k mod M31"
      by (simp only: power_mult_distrib mult.assoc)
    also have "\<dots> = z * ((16807 * 1407677000) ^ k mod M31) mod M31"
      by (rule mod_mult_right_eq [symmetric])
    also have "\<dots> = z mod M31" by (simp only: inv mult_1_right)
    finally show ?thesis .
  qed
  then have z: "z mod M31 = (z * 16807 ^ k mod M31) * 1407677000 ^ k mod M31" for z
    by (simp only: mod_mult_left_eq)
  show ?thesis unfolding z [of x] z [of y] assms ..
qed

lemma power_inj: "inj_on (\<lambda>i. 16807 ^ i mod M31) {..<period}"
proof (rule linorder_inj_onI')
  fix i j
  assume ij: "i \<in> {..<period}" "j \<in> {..<period}" "i < j"
  show "(16807 :: nat) ^ i mod M31 \<noteq> 16807 ^ j mod M31"
  proof
    assume "(16807 :: nat) ^ i mod M31 = 16807 ^ j mod M31"
    then have "1 * 16807 ^ i mod M31 = 16807 ^ (j - i) * 16807 ^ i mod M31"
      using ij(3) by (simp add: power_add [symmetric])
    from cancel_power [OF this] have "16807 ^ (j - i) mod M31 = 1" by simp
    from order_16807 [OF _ this] ij show False by (simp add: period_def)
  qed
qed

lemma orbit_all:
  assumes "inj_on f {..<period}" "\<And>i. 0 < f i \<and> f i < M31"
  shows "f ` {..<period} = {1..period}"
proof (rule card_subset_eq)
  show "f ` {..<period} \<subseteq> {1..period}" using assms(2) by (auto simp: less_M31_iff simp del: atLeastAtMost_iff)
  show "card (f ` {..<period}) = card {1..period}" by (simp add: card_image [OF assms(1)])
qed simp

lemma power_pos: "0 < 16807 ^ i mod M31 \<and> 16807 ^ i mod M31 < M31"
proof -
  have "valid_seed (Random_new 1)" by (rule valid_seed_new)
  moreover have "unat (rnd_seed (Random_new 1)) = 1" by (simp add: Random_new_def)
  ultimately show ?thesis using Nexts_power [of "Random_new 1" i] by (simp add: valid_seed_def)
qed

lemma Nexts_image:
  assumes r: "valid_seed r"
  shows "inj_on (\<lambda>i. unat (rnd_seed (Random_Nexts i r))) {..<period}"
    and "(\<lambda>i. unat (rnd_seed (Random_Nexts i r))) ` {..<period} = {1..period}"
proof -
  let ?s = "unat (rnd_seed r)"
  have "?s \<in> {1..period}" using r unfolding valid_seed_def less_M31_iff .
  then obtain k where k: "?s = 16807 ^ k mod M31"
    unfolding orbit_all [OF power_inj power_pos, symmetric] by blast
  have seed: "unat (rnd_seed (Random_Nexts i r)) = 16807 ^ i * 16807 ^ k mod M31" for i
    using Nexts_power [OF r, of i] mod_mult_right_eq [of "16807 ^ i" "16807 ^ k" M31]
    unfolding k by (simp add: mult.commute)
  show inj: "inj_on (\<lambda>i. unat (rnd_seed (Random_Nexts i r))) {..<period}"
    unfolding seed using cancel_power inj_onD [OF power_inj] by (intro inj_onI) blast
  show "(\<lambda>i. unat (rnd_seed (Random_Nexts i r))) ` {..<period} = {1..period}"
  proof (rule orbit_all [OF inj])
    show "0 < unat (rnd_seed (Random_Nexts i r)) \<and> unat (rnd_seed (Random_Nexts i r)) < M31" for i
      using Nexts_power [OF r, of i] unfolding valid_seed_def by blast
  qed
qed

lemma Nexts_period:
  assumes r: "valid_seed r"
  shows "Random_Nexts period r = r"
proof -
  have "unat (rnd_seed (Random_Nexts period r)) = unat (rnd_seed r) * (16807 ^ period mod M31) mod M31"
    using Nexts_power [OF r, of period] by (simp only: mod_mult_right_eq)
  also have "\<dots> = unat (rnd_seed r)"
    unfolding period_def power_order using r by (simp add: valid_seed_def)
  finally show ?thesis by (cases r; cases "Random_Nexts period r") (simp add: word_unat_eq_iff)
qed

section \<open>Property\<close>

text \<open>
  C6: the comment of \<open>Next\<close> holds: from any seed the generator cycles through every number from 1
  to \<open>M - 1\<close>, each once in \<open>2 ^ 31 - 2\<close> calls, and is then back at its seed.
\<close>

theorem random_full_cycle:
  assumes "valid_seed r" "0 < x" "x < 2 ^ 31 - 1"
  shows "(\<exists>!i. i < 2 ^ 31 - 2 \<and> unat (rnd_seed (Random_Nexts i r)) = x) \<and>
    Random_Nexts (2 ^ 31 - 2) r = r"
proof -
  have p: "2 ^ 31 - 2 = period" by (simp add: period_def)
  have "x \<in> {1..period}" using assms(2,3) by (simp add: period_def)
  then obtain i where "i < period" "unat (rnd_seed (Random_Nexts i r)) = x"
    unfolding Nexts_image(2) [OF assms(1), symmetric] by blast
  moreover have "j = i" if "j < period" "unat (rnd_seed (Random_Nexts j r)) = x" for j
    using inj_onD [OF Nexts_image(1) [OF assms(1)], of j i] that calculation by simp
  ultimately show ?thesis unfolding p using Nexts_period [OF assms(1)] by blast
qed

theorem random_full_cycle_witness:
  "\<exists>i. unat (rnd_seed (Random_Nexts i (Random_new 301))) = 2147483646"
proof -
  have "valid_seed (Random_new 301)" "0 < (2147483646 :: nat)" "(2147483646 :: nat) < 2 ^ 31 - 1"
    by (simp_all add: valid_seed_new)
  from random_full_cycle [OF this] show ?thesis by blast
qed

end
