(* ===== verification/C2_Value.thy ===== *)
theory C2_Value
  imports C2_Memory
begin

text \<open>
  The interface of a class that owns heap memory and behaves as a value: constructors, a copy
  constructor, an assignment operator and a destructor. \<open>rep m v a\<close> says that the object \<open>v\<close>
  stands for the abstract value \<open>a\<close> in the store \<open>m\<close>, \<open>own v\<close> is the set of the heap blocks that
  belong to \<open>v\<close>. A client is a sequence of the four operations on named variables; the locale
  proves once that such a client cannot tell the objects from plain values, never faults, and
  leaks nothing. \<open>C2_Status\<close> interprets the locale with the class \<open>Status\<close>.
\<close>

section \<open>Clients\<close>

datatype 'i client_op =
    Construct nat 'i
  | CopyConstruct nat nat
  | AssignOp nat nat
  | Destruct nat

text \<open>
  The variables are a finite map. A program that constructs a variable twice or uses one that is
  not there is ill-formed: no result.
\<close>

fun client_step :: "(store \<Rightarrow> 'i \<Rightarrow> (store \<times> 'o) option) \<Rightarrow> (store \<Rightarrow> 'o \<Rightarrow> (store \<times> 'o) option) \<Rightarrow>
    (store \<Rightarrow> 'o \<Rightarrow> 'o \<Rightarrow> (store \<times> 'o) option) \<Rightarrow> (store \<Rightarrow> 'o \<Rightarrow> store option) \<Rightarrow>
    'i client_op \<Rightarrow> store \<times> (nat \<rightharpoonup> 'o) \<Rightarrow> (store \<times> (nat \<rightharpoonup> 'o)) option" where
  "client_step mk cp asg del (Construct x i) (m, V) =
     (if V x = None then do { (m', t) \<leftarrow> mk m i; Some (m', V(x \<mapsto> t)) } else None)"
| "client_step mk cp asg del (CopyConstruct x y) (m, V) =
     (if V x = None then do { s \<leftarrow> V y; (m', t) \<leftarrow> cp m s; Some (m', V(x \<mapsto> t)) } else None)"
| "client_step mk cp asg del (AssignOp x y) (m, V) =
     do { d \<leftarrow> V x; s \<leftarrow> V y; (m', t) \<leftarrow> asg m d s; Some (m', V(x \<mapsto> t)) }"
| "client_step mk cp asg del (Destruct x) (m, V) =
     do { d \<leftarrow> V x; m' \<leftarrow> del m d; Some (m', V(x := None)) }"

fun client_run :: "(store \<Rightarrow> 'i \<Rightarrow> (store \<times> 'o) option) \<Rightarrow> (store \<Rightarrow> 'o \<Rightarrow> (store \<times> 'o) option) \<Rightarrow>
    (store \<Rightarrow> 'o \<Rightarrow> 'o \<Rightarrow> (store \<times> 'o) option) \<Rightarrow> (store \<Rightarrow> 'o \<Rightarrow> store option) \<Rightarrow>
    'i client_op list \<Rightarrow> store \<times> (nat \<rightharpoonup> 'o) \<Rightarrow> (store \<times> (nat \<rightharpoonup> 'o)) option" where
  "client_run mk cp asg del [] st = Some st"
| "client_run mk cp asg del (c # cs) st =
     do { st' \<leftarrow> client_step mk cp asg del c st; client_run mk cp asg del cs st' }"

text \<open>The specification: the same program on plain values.\<close>

fun value_step :: "('i \<Rightarrow> 'a option) \<Rightarrow> 'i client_op \<Rightarrow> (nat \<rightharpoonup> 'a) \<Rightarrow> (nat \<rightharpoonup> 'a) option" where
  "value_step inp (Construct x i) A =
     (if A x = None then do { a \<leftarrow> inp i; Some (A(x \<mapsto> a)) } else None)"
| "value_step inp (CopyConstruct x y) A =
     (if A x = None then do { a \<leftarrow> A y; Some (A(x \<mapsto> a)) } else None)"
| "value_step inp (AssignOp x y) A =
     do { _ \<leftarrow> A x; a \<leftarrow> A y; Some (A(x \<mapsto> a)) }"
| "value_step inp (Destruct x) A = do { _ \<leftarrow> A x; Some (A(x := None)) }"

fun value_run :: "('i \<Rightarrow> 'a option) \<Rightarrow> 'i client_op list \<Rightarrow> (nat \<rightharpoonup> 'a) \<Rightarrow> (nat \<rightharpoonup> 'a) option" where
  "value_run inp [] A = Some A"
| "value_run inp (c # cs) A = do { A' \<leftarrow> value_step inp c A; value_run inp cs A' }"

section \<open>The invariant of a client\<close>

text \<open>
  \<open>m0\<close> is the store the client started with. Its blocks are untouched, every variable stands for
  its abstract value, no two variables share memory, and every block that \<open>m0\<close> did not have belongs
  to a variable.
\<close>

definition client_inv :: "(store \<Rightarrow> 'o \<Rightarrow> 'a \<Rightarrow> bool) \<Rightarrow> ('o \<Rightarrow> nat set) \<Rightarrow> store \<Rightarrow> store \<Rightarrow>
    (nat \<rightharpoonup> 'o) \<Rightarrow> (nat \<rightharpoonup> 'a) \<Rightarrow> bool" where
  "client_inv rep own m0 m V A \<longleftrightarrow>
     wf_store m \<and> (\<forall>x. rel_option (rep m) (V x) (A x)) \<and>
     (\<forall>x y s t. V x = Some s \<and> V y = Some t \<and> x \<noteq> y \<longrightarrow> own s \<inter> own t = {}) \<and>
     (\<forall>x s b. V x = Some s \<and> b \<in> own s \<longrightarrow> blocks m0 b = None) \<and>
     (\<forall>b. blocks m0 b \<noteq> None \<longrightarrow> blocks m b = blocks m0 b) \<and>
     (\<forall>b. blocks m b \<noteq> None \<and> blocks m0 b = None \<longrightarrow> (\<exists>x s. V x = Some s \<and> b \<in> own s))"

text \<open>An operation frees the blocks \<open>old\<close>, allocates the blocks \<open>new\<close> and leaves every other one.\<close>

definition replaces :: "store \<Rightarrow> nat set \<Rightarrow> nat set \<Rightarrow> store \<Rightarrow> bool" where
  "replaces m old new m' \<longleftrightarrow>
     wf_store m' \<and> (\<forall>b \<in> new. blocks m b = None) \<and>
     (\<forall>b. b \<notin> new \<longrightarrow> blocks m' b = (if b \<in> old then None else blocks m b))"

lemma replaces_wf: "replaces m old new m' \<Longrightarrow> wf_store m'"
  by (simp add: replaces_def)

lemma replaces_other: "replaces m old new m' \<Longrightarrow> b \<notin> new \<Longrightarrow> b \<notin> old \<Longrightarrow> blocks m' b = blocks m b"
  by (simp add: replaces_def)

lemma replaces_fresh: "replaces m old new m' \<Longrightarrow> b \<in> new \<Longrightarrow> blocks m b = None"
  by (auto simp: replaces_def)

lemma replaces_freed: "replaces m old new m' \<Longrightarrow> b \<in> old \<Longrightarrow> b \<notin> new \<Longrightarrow> blocks m' b = None"
  by (simp add: replaces_def)

lemma replaces_with_fresh:
  "wf_store m \<Longrightarrow> replaces m {} {next_block m} (with_fresh m bs)"
  by (auto simp: replaces_def wf_with_fresh blocks_with_fresh wf_store_fresh)

lemma replaces_free:
  "wf_store m \<Longrightarrow> b \<noteq> 0 \<Longrightarrow> replaces m {b} {} (m\<lparr>blocks := (blocks m)(b := None)\<rparr>)"
  by (simp add: replaces_def wf_free)

lemma replaces_none: "wf_store m \<Longrightarrow> replaces m {} {} m"
  by (simp add: replaces_def)

lemma replaces_trans:
  "replaces m old {} m1 \<Longrightarrow> replaces m1 {} new m2 \<Longrightarrow> new \<inter> old = {} \<Longrightarrow> replaces m old new m2"
  unfolding replaces_def by (metis disjoint_iff empty_iff)

definition owned_by :: "('o \<Rightarrow> nat set) \<Rightarrow> 'o option \<Rightarrow> nat set" where
  "owned_by own v = (case v of None \<Rightarrow> {} | Some s \<Rightarrow> own s)"

lemma owned_by_simps [simp]: "owned_by own None = {}" "owned_by own (Some s) = own s"
  by (simp_all add: owned_by_def)

section \<open>The interface\<close>

locale heap_value =
  fixes rep :: "store \<Rightarrow> 'o \<Rightarrow> 'a \<Rightarrow> bool"
    and own :: "'o \<Rightarrow> nat set"
    and inp :: "store \<Rightarrow> 'i \<Rightarrow> 'a option"
    and mk :: "store \<Rightarrow> 'i \<Rightarrow> (store \<times> 'o) option"
    and cp :: "store \<Rightarrow> 'o \<Rightarrow> (store \<times> 'o) option"
    and asg :: "store \<Rightarrow> 'o \<Rightarrow> 'o \<Rightarrow> (store \<times> 'o) option"
    and del :: "store \<Rightarrow> 'o \<Rightarrow> store option"
  assumes own_live: "rep m v a \<Longrightarrow> k \<in> own v \<Longrightarrow> blocks m k \<noteq> None"
    and rep_frame: "rep m v a \<Longrightarrow> (\<And>k. k \<in> own v \<Longrightarrow> blocks m' k = blocks m k) \<Longrightarrow> rep m' v a"
    and inp_frame: "inp m i = Some a \<Longrightarrow> (\<And>k. blocks m k \<noteq> None \<Longrightarrow> blocks m' k = blocks m k) \<Longrightarrow>
      inp m' i = Some a"
    and mk: "wf_store m \<Longrightarrow> inp m i = Some a \<Longrightarrow>
      \<exists>m' t. mk m i = Some (m', t) \<and> rep m' t a \<and> replaces m {} (own t) m'"
    and cp: "wf_store m \<Longrightarrow> rep m v a \<Longrightarrow>
      \<exists>m' t. cp m v = Some (m', t) \<and> rep m' t a \<and> replaces m {} (own t) m'"
    and asg: "wf_store m \<Longrightarrow> rep m d a \<Longrightarrow> rep m v b \<Longrightarrow> own d \<inter> own v = {} \<Longrightarrow>
      \<exists>m' t. asg m d v = Some (m', t) \<and> rep m' t b \<and> replaces m (own d) (own t) m'"
    and asg_self: "asg m d d = Some (m, d)"
    and del: "wf_store m \<Longrightarrow> rep m d a \<Longrightarrow>
      \<exists>m'. del m d = Some m' \<and> replaces m (own d) {} m'"
begin

abbreviation inv where "inv \<equiv> client_inv rep own"

lemma inv_start: "wf_store m \<Longrightarrow> inv m m Map.empty Map.empty"
  by (auto simp: client_inv_def simp del: not_None_eq)

lemma inv_rep: "inv m0 m V A \<Longrightarrow> A x = Some a \<Longrightarrow> \<exists>s. V x = Some s \<and> rep m s a"
  unfolding client_inv_def by (metis option_rel_Some2)

lemma inv_wf: "inv m0 m V A \<Longrightarrow> wf_store m"
  by (simp add: client_inv_def)

lemma inv_dom: "inv m0 m V A \<Longrightarrow> V x = None \<longleftrightarrow> A x = None"
  unfolding client_inv_def by (metis option.rel_distinct option.exhaust)

lemma inv_disjoint:
  "inv m0 m V A \<Longrightarrow> V x = Some s \<Longrightarrow> V y = Some t \<Longrightarrow> x \<noteq> y \<Longrightarrow> own s \<inter> own t = {}"
  by (simp add: client_inv_def)

lemma inv_base: "inv m0 m V A \<Longrightarrow> blocks m0 b \<noteq> None \<Longrightarrow> blocks m b = blocks m0 b"
  by (simp add: client_inv_def)

lemma inv_not_owned: "inv m0 m V A \<Longrightarrow> blocks m0 b \<noteq> None \<Longrightarrow> b \<notin> owned_by own (V x)"
  unfolding client_inv_def by (cases "V x") auto

lemma inv_owned:
  "inv m0 m V A \<Longrightarrow> blocks m b \<noteq> None \<Longrightarrow> blocks m0 b = None \<Longrightarrow> \<exists>x s. V x = Some s \<and> b \<in> own s"
  unfolding client_inv_def by blast

lemma inv_input: "inv m0 m V A \<Longrightarrow> inp m0 i = Some a \<Longrightarrow> inp m i = Some a"
  by (erule inp_frame) (simp add: client_inv_def)

text \<open>What one operation on the variable \<open>x\<close> does keeps every other variable.\<close>

lemma inv_others:
  assumes inv: "inv m0 m V A" and rpl: "replaces m (owned_by own (V x)) new m'" and xy: "x \<noteq> y"
    and V: "V y = Some s" and A: "A y = Some a"
  shows "rep m' s a \<and> own s \<inter> new = {}"
proof -
  obtain s' where "V y = Some s'" "rep m s' a" using inv_rep [OF inv A] by blast
  with V have s: "rep m s a" by simp
  have new: "own s \<inter> new = {}" using own_live [OF s] rpl unfolding replaces_def disjoint_iff by blast
  have old: "own s \<inter> owned_by own (V x) = {}"
    using inv_disjoint [OF inv _ V xy] by (cases "V x") auto
  have "rep m' s a"
    using s by (rule rep_frame) (rule replaces_other [OF rpl], use new old in auto)
  with new show ?thesis by blast
qed

lemma inv_update:
  assumes inv: "inv m0 m V A" and rpl: "replaces m (owned_by own (V x)) (own t) m'"
    and t: "rep m' t a"
  shows "inv m0 m' (V(x \<mapsto> t)) (A(x \<mapsto> a))"
proof -
  note others = inv_others [OF inv rpl]
  have reps: "rel_option (rep m') ((V(x \<mapsto> t)) y) ((A(x \<mapsto> a)) y)" for y
  proof (cases "y = x")
    case False
    with others [of y] inv_dom [OF inv, of y] show ?thesis by (cases "V y"; cases "A y") auto
  qed (simp add: t)
  have base: "blocks m' b = blocks m0 b \<and> b \<notin> own t" if b: "blocks m0 b \<noteq> None" for b
  proof -
    have "blocks m b = blocks m0 b" "b \<notin> owned_by own (V x)"
      using inv_base [OF inv b] inv_not_owned [OF inv b] by simp_all
    moreover have "b \<notin> own t"
      using calculation(1) b rpl by (auto simp: replaces_def)
    ultimately show ?thesis using replaces_other [OF rpl] by simp
  qed
  have distinct: "own s \<inter> own u = {}"
    if "(V(x \<mapsto> t)) y = Some s" "(V(x \<mapsto> t)) z = Some u" "y \<noteq> z" for y z s u
  proof -
    have ex: "own w \<inter> own t = {}" if "V k = Some w" "k \<noteq> x" for k w
      using others [of k w] inv_dom [OF inv, of k] that by (cases "A k") auto
    show ?thesis
      using that ex [of y s] ex [of z u] inv_disjoint [OF inv, of y s z u]
      by (auto split: if_splits)
  qed
  have leak: "blocks m0 b \<noteq> None \<or> (\<exists>y s. (V(x \<mapsto> t)) y = Some s \<and> b \<in> own s)"
    if b: "blocks m' b \<noteq> None" for b
  proof (cases "b \<in> own t")
    case False
    with b rpl have "b \<notin> owned_by own (V x)" "blocks m b \<noteq> None"
      by (auto simp: replaces_def split: if_splits)
    then consider "blocks m0 b \<noteq> None" | y s where "V y = Some s" "b \<in> own s" "b \<notin> owned_by own (V x)"
      using inv_owned [OF inv] by blast
    then show ?thesis
    proof cases
      case 2
      then have "y \<noteq> x" by auto
      with 2 show ?thesis by auto
    qed simp
  qed auto
  have old: "blocks m0 b = None" if "(V(x \<mapsto> t)) y = Some s" "b \<in> own s" for y s b
    using inv_not_owned [OF inv, of b y] base [of b] that
    by (cases "blocks m0 b"; cases "y = x") auto
  show ?thesis
    unfolding client_inv_def
  proof (intro conjI)
    show "\<forall>y z s u. (V(x \<mapsto> t)) y = Some s \<and> (V(x \<mapsto> t)) z = Some u \<and> y \<noteq> z \<longrightarrow> own s \<inter> own u = {}"
      using distinct by blast
    show "\<forall>y s b. (V(x \<mapsto> t)) y = Some s \<and> b \<in> own s \<longrightarrow> blocks m0 b = None"
      using old by blast
    show "\<forall>b. blocks m' b \<noteq> None \<and> blocks m0 b = None \<longrightarrow>
        (\<exists>y s. (V(x \<mapsto> t)) y = Some s \<and> b \<in> own s)"
      using leak by blast
  qed (use reps base replaces_wf [OF rpl] in blast)+
qed

lemma inv_remove:
  assumes inv: "inv m0 m V A" and rpl: "replaces m (owned_by own (V x)) {} m'"
  shows "inv m0 m' (V(x := None)) (A(x := None))"
proof -
  have reps: "rel_option (rep m') ((V(x := None)) y) ((A(x := None)) y)" for y
    using inv_others [OF inv rpl, of y] inv_dom [OF inv, of y]
    by (cases "y = x"; cases "V y"; cases "A y") auto
  have base: "blocks m' b = blocks m0 b" if "blocks m0 b \<noteq> None" for b
    using replaces_other [OF rpl] inv_base [OF inv that] inv_not_owned [OF inv that] by simp
  have leak: "blocks m0 b \<noteq> None \<or> (\<exists>y s. (V(x := None)) y = Some s \<and> b \<in> own s)"
    if b: "blocks m' b \<noteq> None" for b
  proof -
    from b rpl have *: "b \<notin> owned_by own (V x)" "blocks m b \<noteq> None"
      by (auto simp: replaces_def split: if_splits)
    then consider "blocks m0 b \<noteq> None" | y s where "V y = Some s" "b \<in> own s"
      using inv_owned [OF inv] by blast
    then show ?thesis
    proof cases
      case 2
      with * have "y \<noteq> x" by auto
      with 2 show ?thesis by auto
    qed simp
  qed
  show ?thesis
    unfolding client_inv_def
  proof (intro conjI)
    show "\<forall>b. blocks m' b \<noteq> None \<and> blocks m0 b = None \<longrightarrow>
        (\<exists>y s. (V(x := None)) y = Some s \<and> b \<in> own s)"
      using leak by blast
  qed (use reps base replaces_wf [OF rpl] inv in \<open>auto simp: client_inv_def\<close>)
qed

lemma client_step_refines:
  assumes inv: "inv m0 m V A" and step: "value_step (inp m0) c A = Some A'"
  shows "\<exists>m' V'. client_step mk cp asg del c (m, V) = Some (m', V') \<and> inv m0 m' V' A'"
proof (cases c)
  case (Construct x i)
  with step have x: "A x = None" "V x = None" and "\<exists>a. inp m0 i = Some a \<and> A' = A(x \<mapsto> a)"
    using inv_dom [OF inv] by (auto simp: bind_Some_iff split: if_splits)
  then obtain a where a: "inp m i = Some a" "A' = A(x \<mapsto> a)"
    using inv_input [OF inv] by blast
  from mk [OF inv_wf [OF inv] a(1)] inv_update [OF inv, of x] x a(2) show ?thesis
    by (auto simp: Construct)
next
  case (CopyConstruct x y)
  with step obtain a where x: "V x = None" and a: "A y = Some a" "A' = A(x \<mapsto> a)"
    using inv_dom [OF inv, of x] by (auto simp: bind_Some_iff split: if_splits)
  obtain s where s: "V y = Some s" "rep m s a" using inv_rep [OF inv a(1)] by blast
  from cp [OF inv_wf [OF inv] s(2)] inv_update [OF inv, of x] x a(2) s(1) show ?thesis
    by (auto simp: CopyConstruct)
next
  case (AssignOp x y)
  with step obtain a b where a: "A x = Some b" "A y = Some a" "A' = A(x \<mapsto> a)"
    by (auto simp: bind_Some_iff)
  obtain d where d: "V x = Some d" "rep m d b" using inv_rep [OF inv a(1)] by blast
  obtain s where s: "V y = Some s" "rep m s a" using inv_rep [OF inv a(2)] by blast
  show ?thesis
  proof (cases "x = y")
    case True
    with a d s inv show ?thesis by (auto simp: AssignOp asg_self fun_upd_idem)
  next
    case False
    from asg [OF inv_wf [OF inv] d(2) s(2) inv_disjoint [OF inv d(1) s(1) False]]
      inv_update [OF inv, of x] a(3) d(1) s(1)
    show ?thesis by (auto simp: AssignOp)
  qed
next
  case (Destruct x)
  with step obtain a where a: "A x = Some a" "A' = A(x := None)" by (auto simp: bind_Some_iff)
  obtain d where d: "V x = Some d" "rep m d a" using inv_rep [OF inv a(1)] by blast
  from del [OF inv_wf [OF inv] d(2)] inv_remove [OF inv, of x] a(2) d(1) show ?thesis
    by (auto simp: Destruct)
qed

lemma client_run_refines:
  "inv m0 m V A \<Longrightarrow> value_run (inp m0) cs A = Some A' \<Longrightarrow>
     \<exists>m' V'. client_run mk cp asg del cs (m, V) = Some (m', V') \<and> inv m0 m' V' A'"
proof (induction cs arbitrary: m V A)
  case Nil
  then show ?case by simp
next
  case (Cons c cs)
  then obtain A1 where "value_step (inp m0) c A = Some A1" and run: "value_run (inp m0) cs A1 = Some A'"
    by (auto simp: bind_Some_iff)
  with client_step_refines [OF Cons.prems(1)] obtain m1 V1
    where step: "client_step mk cp asg del c (m, V) = Some (m1, V1)" and inv1: "inv m0 m1 V1 A1"
    by blast
  from Cons.IH [OF inv1 run] step show ?case by auto
qed

text \<open>Once every variable is destroyed, the heap is what it was at the start.\<close>

lemma inv_end: "inv m0 m Map.empty A \<Longrightarrow> blocks m = blocks m0"
proof
  fix b
  assume inv: "inv m0 m Map.empty A"
  show "blocks m b = blocks m0 b"
    using inv_base [OF inv, of b] inv_owned [OF inv, of b] by (cases "blocks m0 b"; cases "blocks m b") auto
qed

end

end
