(* ===== verification/C2_Text.thy ===== *)
theory C2_Text
  imports C2_Prelude
begin

text \<open>
  What the code uses of the C library on characters: \<open>%d\<close> of the \<open>printf\<close> and \<open>scanf\<close> families,
  \<open>atoi\<close> and \<open>strstr\<close>, on the characters of a string without its terminator. Printing and parsing
  a number are inverse, and \<open>strstr\<close> finds exactly the contiguous sublists.
\<close>

text \<open>The bytes of a string literal.\<close>

definition chars :: "string \<Rightarrow> byte list" where
  "chars s = map of_char s"

lemma chars_append: "chars (s @ t) = chars s @ chars t"
  by (simp add: chars_def)

lemma length_chars [simp]: "length (chars s) = length s"
  by (simp add: chars_def)

section \<open>Printing\<close>

fun dec_digits :: "nat \<Rightarrow> byte list" where
  "dec_digits n = (if n < 10 then [] else dec_digits (n div 10)) @ [word_of_nat (48 + n mod 10)]"

declare dec_digits.simps [simp del]

definition dec_int :: "int \<Rightarrow> byte list" where
  "dec_int k = (if k < 0 then 45 # dec_digits (nat (- k)) else dec_digits (nat k))"

lemma length_dec_digits: "n < 10 ^ k \<Longrightarrow> 0 < k \<Longrightarrow> length (dec_digits n) \<le> k"
proof (induction n arbitrary: k rule: dec_digits.induct)
  case (1 n)
  show ?case
  proof (cases "n < 10")
    case True
    with "1.prems" show ?thesis by (subst dec_digits.simps) simp
  next
    case False
    with "1.prems" obtain j where j: "k = Suc j" "0 < j" by (cases k; cases "k - 1") auto
    with "1.prems" have "n div 10 < 10 ^ j" by (simp add: less_mult_imp_div_less mult.commute)
    with "1.IH" [OF False this j(2)] False j(1) show ?thesis by (subst dec_digits.simps) simp
  qed
qed

lemma length_dec_int: "length (dec_int (sint (w :: u32))) \<le> 11"
proof -
  have "- (2 ^ 31) \<le> sint w" "sint w < 2 ^ 31"
    using sint_ge [of w] sint_lt [of w] by simp_all
  then have "nat (sint w) < 10 ^ 10" "nat (- sint w) < 10 ^ 10"
    by (simp_all add: nat_less_iff)
  with length_dec_digits [of "nat (sint w)" 10] length_dec_digits [of "nat (- sint w)" 10]
  show ?thesis by (simp add: dec_int_def)
qed

section \<open>Parsing\<close>

definition is_space :: "byte \<Rightarrow> bool" where
  "is_space c \<longleftrightarrow> c = 32 \<or> 9 \<le> c \<and> c \<le> 13"

definition is_digit :: "byte \<Rightarrow> bool" where
  "is_digit c \<longleftrightarrow> 48 \<le> c \<and> c \<le> 57"

definition digits_val :: "byte list \<Rightarrow> nat" where
  "digits_val ds = foldl (\<lambda>v d. 10 * v + (unat d - 48)) 0 ds"

text \<open>
  White space, an optional sign, and the longest run of digits: the number and what follows, or
  \<open>None\<close> when there is no digit. The number is not yet bounded.
\<close>

definition parse_dec :: "byte list \<Rightarrow> (int \<times> byte list) option" where
  "parse_dec s =
     (let s = dropWhile is_space s;
          neg = (s \<noteq> [] \<and> hd s = 45);
          s = (if s \<noteq> [] \<and> (hd s = 45 \<or> hd s = 43) then tl s else s);
          ds = takeWhile is_digit s
      in if ds = [] then None
         else Some (if neg then - int (digits_val ds) else int (digits_val ds), dropWhile is_digit s))"

definition fits_int :: "int \<Rightarrow> bool" where
  "fits_int k \<longleftrightarrow> - (2 ^ 31) \<le> k \<and> k < 2 ^ 31"

text \<open>
  \<open>atoi\<close> is 0 for a string without a number; a number that is no \<open>int\<close> has no defined result.
\<close>

definition atoi :: "byte list \<Rightarrow> int option" where
  "atoi s = (case parse_dec s of
       None \<Rightarrow> Some 0
     | Some (k, rest) \<Rightarrow> if fits_int k then Some k else None)"

lemma is_digit_byte: "d < 10 \<Longrightarrow> is_digit (word_of_nat (48 + d))"
  by (simp add: is_digit_def word_le_nat_alt unat_word_of_nat_byte del: of_nat_add)

lemma digit_val_byte: "d < 10 \<Longrightarrow> unat (word_of_nat (48 + d) :: byte) - 48 = d"
  by (simp add: unat_word_of_nat_byte del: of_nat_add)

lemma dec_digits_nonempty [simp]: "dec_digits n \<noteq> []"
  by (subst dec_digits.simps) simp

lemma dec_digits_digit: "c \<in> set (dec_digits n) \<Longrightarrow> is_digit c"
proof (induction n rule: dec_digits.induct)
  case (1 n)
  then show ?case
    by (subst (asm) dec_digits.simps) (auto simp: is_digit_byte simp del: of_nat_add split: if_splits)
qed

lemma digits_val_append: "digits_val (ds @ [d]) = 10 * digits_val ds + (unat d - 48)"
  by (simp add: digits_val_def)

lemma digits_val_dec_digits: "digits_val (dec_digits n) = n"
proof (induction n rule: dec_digits.induct)
  case (1 n)
  show ?case
  proof (cases "n < 10")
    case True
    then show ?thesis
      by (subst dec_digits.simps) (simp add: digits_val_def digit_val_byte del: of_nat_add)
  next
    case False
    with 1 show ?thesis
      by (subst dec_digits.simps) (simp add: digits_val_append digit_val_byte del: of_nat_add)
  qed
qed

lemma digit_not_sign: "is_digit c \<Longrightarrow> c \<noteq> 45 \<and> c \<noteq> 43 \<and> \<not> is_space c"
  by (auto simp: is_digit_def is_space_def word_le_nat_alt)

lemma hd_dec_digits: "is_digit (hd (dec_digits n))"
  using dec_digits_digit [of "hd (dec_digits n)" n] by simp

text \<open>Parsing what was printed gives the number back, up to the first character that is no digit.\<close>

lemma parse_dec_int:
  assumes "rest = [] \<or> \<not> is_digit (hd rest)"
  shows "parse_dec (dec_int k @ rest) = Some (k, rest)"
proof -
  have take: "takeWhile is_digit (dec_digits n @ rest) = dec_digits n"
    and drop: "dropWhile is_digit (dec_digits n @ rest) = rest" for n
    using assms dec_digits_digit [of _ n]
    by (cases rest; auto simp: takeWhile_append dropWhile_append takeWhile_eq_all_conv)+
  have hd: "hd (dec_digits n @ rest) = hd (dec_digits n)" for n by simp
  note sign = digit_not_sign [OF hd_dec_digits]
  have space: "dropWhile is_space (dec_digits n @ rest) = dec_digits n @ rest" for n
    using sign [of n] by (cases "dec_digits n") auto
  show ?thesis
  proof (cases "k < 0")
    case True
    have "\<not> is_space 45" by (simp add: is_space_def)
    with True show ?thesis
      by (simp add: parse_dec_def dec_int_def take drop digits_val_dec_digits)
  next
    case False
    with sign [of "nat k"] show ?thesis
      by (simp add: parse_dec_def dec_int_def space take drop digits_val_dec_digits)
  qed
qed

lemma atoi_dec_int: "fits_int k \<Longrightarrow> atoi (dec_int k) = Some k"
  using parse_dec_int [of "[]" k] by (simp add: atoi_def)

section \<open>Searching\<close>

text \<open>\<open>strstr\<close>: the offset of the first occurrence, or \<open>None\<close> for the null pointer.\<close>

fun strstr :: "byte list \<Rightarrow> byte list \<Rightarrow> nat option" where
  "strstr [] pat = (if pat = [] then Some 0 else None)"
| "strstr (c # cs) pat =
     (if prefix pat (c # cs) then Some 0 else map_option Suc (strstr cs pat))"

lemma strstr_None_iff: "strstr s pat = None \<longleftrightarrow> \<not> sublist pat s"
  by (induction s) (auto simp: sublist_Cons_right)

lemma strstr_Some: "strstr s pat = Some i \<Longrightarrow> i \<le> length s \<and> prefix pat (drop i s)"
  by (induction s arbitrary: i) (auto split: if_splits)

lemma strstr_first: "strstr s pat = Some i \<Longrightarrow> j < i \<Longrightarrow> \<not> prefix pat (drop j s)"
proof (induction s arbitrary: i j)
  case (Cons c cs)
  then show ?case by (cases j) (auto split: if_splits)
qed (auto split: if_splits)

end
