(* ===== verification/C2_Status.thy ===== *)
theory C2_Status
  imports C2_Value C2_Slice C2_Text
begin

text \<open>
  \<open>Status\<close> (\<open>c2_status.h\<close>, \<open>c2_status.cc\<close>): a null pointer for success, otherwise a heap array of
  four bytes of message length in host order, one byte of code, and the message. The sizes are
  \<open>uint32_t\<close> and wrap. The class is proved to be a value: \<open>status_rep\<close> relates an object to the
  abstract status it stands for, and constructors, copies, assignments and destructors keep that
  relation, share no memory and leak none.
\<close>

section \<open>Data\<close>

datatype Code =
    kOk | kNotFound | kAlreadyExists | kCorruption | kNotSupported | kInvalidArgument
  | kIOError | kAssertionFailed | kAccessDenied | kUnknownError

fun code_num :: "Code \<Rightarrow> nat" where
  "code_num kOk = 0"
| "code_num kNotFound = 1"
| "code_num kAlreadyExists = 2"
| "code_num kCorruption = 3"
| "code_num kNotSupported = 4"
| "code_num kInvalidArgument = 5"
| "code_num kIOError = 6"
| "code_num kAssertionFailed = 7"
| "code_num kAccessDenied = 8"
| "code_num kUnknownError = 9"

definition all_codes :: "Code list" where
  "all_codes = [kOk, kNotFound, kAlreadyExists, kCorruption, kNotSupported, kInvalidArgument,
     kIOError, kAssertionFailed, kAccessDenied, kUnknownError]"

lemma code_num_less: "code_num k < 10"
  by (cases k) simp_all

lemma all_codes_nth: "all_codes ! code_num k = k"
  by (cases k) (simp_all add: all_codes_def)

lemma code_num_inject [simp]: "code_num j = code_num k \<longleftrightarrow> j = k"
  by (metis all_codes_nth)

text \<open>Codes compare by their number.\<close>

instantiation Code :: linorder
begin

definition less_eq_Code :: "Code \<Rightarrow> Code \<Rightarrow> bool" where
  "less_eq_Code j k = (code_num j \<le> code_num k)"

definition less_Code :: "Code \<Rightarrow> Code \<Rightarrow> bool" where
  "less_Code j k = (code_num j < code_num k)"

instance
  by standard (auto simp: less_eq_Code_def less_Code_def)

end

definition kMaxCode :: nat where
  "kMaxCode = code_num kUnknownError - 1"

text \<open>
  \<open>static_cast<Code>(state_[4])\<close>. The byte of a status comes from an enumerator; another value has
  no enumerator and no result.
\<close>

definition Code_of_byte :: "byte \<Rightarrow> Code option" where
  "Code_of_byte c = (if unat c < 10 then Some (all_codes ! unat c) else None)"

lemma Code_of_byte_code_num [simp]: "Code_of_byte (word_of_nat (code_num k)) = Some k"
  using code_num_less [of k] by (simp add: Code_of_byte_def unat_word_of_nat_byte all_codes_nth)

record Status =
  st_state :: ptr

definition kCodeString :: "byte list list" where
  "kCodeString = map chars [''OK'', ''Not found'', ''Already exists'', ''Corruption'',
     ''Not implemented'', ''Invalid argument'', ''IO error'', ''Assertion failed'',
     ''Permission denied'']"

section \<open>Operations\<close>

text \<open>The default constructor; \<open>OK()\<close> returns what it builds.\<close>

definition Status_default :: Status where
  "Status_default = \<lparr>st_state = Null\<rparr>"

definition Status_OK :: Status where
  "Status_OK = Status_default"

definition Status_ok :: "Status \<Rightarrow> bool" where
  "Status_ok s = (st_state s = Null)"

definition Status_code :: "store \<Rightarrow> Status \<Rightarrow> Code option" where
  "Status_code m s =
     (if st_state s = Null then Some kOk
      else do { c \<leftarrow> load_at m (st_state s) 4; Code_of_byte c })"

definition Status_err_code :: "store \<Rightarrow> Status \<Rightarrow> nat option" where
  "Status_err_code m s = do { k \<leftarrow> Status_code m s; Some (code_num k) }"

text \<open>\<open>Is##Err()\<close>, for the enumerator \<open>k\<close> of \<open>Err\<close>.\<close>

definition Status_Is :: "store \<Rightarrow> Code \<Rightarrow> Status \<Rightarrow> bool option" where
  "Status_Is m k s = do { c \<leftarrow> Status_code m s; Some (c = k) }"

text \<open>The private constructor \<open>Status(code, msg1, msg2)\<close>.\<close>

definition Status_new :: "platform \<Rightarrow> store \<Rightarrow> Code \<Rightarrow> slice \<Rightarrow> slice \<Rightarrow> (store \<times> Status) option" where
  "Status_new pf m code msg1 msg2 =
     do { c_assert pf (code \<noteq> kOk);
          let len1 = (ucast (sl_size msg1) :: u32);
          let len2 = (ucast (sl_size msg2) :: u32);
          let size = len1 + (if len2 \<noteq> 0 then 2 + len2 else 0);
          let (m, result) = alloc m (unat (size + 5));
          m \<leftarrow> store_bytes m result (host_bytes pf 4 (unat size));
          m \<leftarrow> store_at m result 4 (word_of_nat (code_num code));
          p \<leftarrow> ptr_add m result 5;
          bs1 \<leftarrow> load_bytes m (sl_data msg1) (unat len1);
          m \<leftarrow> store_bytes m p bs1;
          if len2 \<noteq> 0 then do {
            m \<leftarrow> store_at m result (uint (5 + len1)) 58;
            m \<leftarrow> store_at m result (uint (6 + len1)) 32;
            bs2 \<leftarrow> load_bytes m (sl_data msg2) (unat len2);
            p \<leftarrow> ptr_add m result 7;
            p \<leftarrow> ptr_add m p (uint len1);
            m \<leftarrow> store_bytes m p bs2;
            Some (m, \<lparr>st_state = result\<rparr>) }
          else Some (m, \<lparr>st_state = result\<rparr>) }"

text \<open>
  \<open>DEF_ERR(Err)\<close> defines \<open>Err(msg, msg2 = Slice())\<close> for each error code \<open>kErr\<close>: \<open>None\<close> is a call with one
  argument.
\<close>

definition Status_Err :: "Code \<Rightarrow> platform \<Rightarrow> store \<Rightarrow> slice \<Rightarrow> slice option \<Rightarrow> (store \<times> Status) option" where
  "Status_Err k pf m msg msg2 =
     Status_new pf m k msg (case msg2 of None \<Rightarrow> Slice_empty | Some s \<Rightarrow> s)"

text \<open>
  The ways a client makes a status: \<open>Status()\<close>, \<open>Status::OK()\<close>, and \<open>Status::Err(msg, msg2)\<close> with one
  message or two.
\<close>

datatype status_init = DefaultInit | OkInit | ErrInit Code slice "slice option"

fun Status_init :: "platform \<Rightarrow> store \<Rightarrow> status_init \<Rightarrow> (store \<times> Status) option" where
  "Status_init pf m DefaultInit = Some (m, Status_default)"
| "Status_init pf m OkInit = Some (m, Status_OK)"
| "Status_init pf m (ErrInit k msg msg2) = Status_Err k pf m msg msg2"

definition CopyState :: "platform \<Rightarrow> store \<Rightarrow> ptr \<Rightarrow> (store \<times> ptr) option" where
  "CopyState pf m state =
     do { bs \<leftarrow> load_bytes m state 4;
          let size = (word_of_nat (host_val pf bs) :: u32);
          let (m, result) = alloc m (unat (size + 5));
          bs \<leftarrow> load_bytes m state (unat (size + 5));
          m \<leftarrow> store_bytes m result bs;
          Some (m, result) }"

definition Status_copy :: "platform \<Rightarrow> store \<Rightarrow> Status \<Rightarrow> (store \<times> Status) option" where
  "Status_copy pf m s =
     (if st_state s = Null then Some (m, \<lparr>st_state = Null\<rparr>)
      else do { (m, p) \<leftarrow> CopyState pf m (st_state s); Some (m, \<lparr>st_state = p\<rparr>) })"

definition Status_assign :: "platform \<Rightarrow> store \<Rightarrow> Status \<Rightarrow> Status \<Rightarrow> (store \<times> Status) option" where
  "Status_assign pf m this s =
     (if st_state this \<noteq> st_state s
      then do {
        m \<leftarrow> free m (st_state this);
        if st_state s \<noteq> Null
        then do { (m, p) \<leftarrow> CopyState pf m (st_state s); Some (m, this\<lparr>st_state := p\<rparr>) }
        else Some (m, this\<lparr>st_state := Null\<rparr>) }
      else Some (m, this))"

definition Status_delete :: "store \<Rightarrow> Status \<Rightarrow> store option" where
  "Status_delete m s = free m (st_state s)"

definition Status_ToString :: "platform \<Rightarrow> store \<Rightarrow> Status \<Rightarrow> byte list option" where
  "Status_ToString pf m s =
     (if st_state s = Null then Some (chars ''OK'')
      else do {
        e \<leftarrow> Status_err_code m s;
        type \<leftarrow> (if e < length kCodeString then Some (kCodeString ! e) else None);
        bs \<leftarrow> load_bytes m (st_state s) 4;
        let len = (word_of_nat (host_val pf bs) :: u32);
        if len = 0 then Some type
        else do {
          p \<leftarrow> ptr_add m (st_state s) 5;
          msg \<leftarrow> load_bytes m p (unat len);
          Some (type @ chars '': '' @ msg) } })"

section \<open>The state array\<close>

definition state_bytes :: "platform \<Rightarrow> Code \<Rightarrow> byte list \<Rightarrow> byte list" where
  "state_bytes pf k txt = host_bytes pf 4 (length txt) @ word_of_nat (code_num k) # txt"

lemma length_state_bytes [simp]: "length (state_bytes pf k txt) = 5 + length txt"
  by (simp add: state_bytes_def)

text \<open>
  The message a status documents, \<open>msg1\<close> or \<open>msg1: msg2\<close>, and the one it is built with: each part
  keeps its size modulo \<open>2 ^ 32\<close>. They are the same when the whole array fits a \<open>uint32_t\<close>.
\<close>

definition low32 :: "byte list \<Rightarrow> byte list" where
  "low32 bs = take (length bs mod 2 ^ 32) bs"

definition status_message :: "byte list \<Rightarrow> byte list \<Rightarrow> byte list" where
  "status_message bs1 bs2 = bs1 @ (if bs2 = [] then [] else chars '': '' @ bs2)"

definition status_text :: "byte list \<Rightarrow> byte list \<Rightarrow> byte list" where
  "status_text bs1 bs2 = low32 bs1 @ (if low32 bs2 = [] then [] else chars '': '' @ low32 bs2)"

lemma length_low32: "length (low32 bs) = length bs mod 2 ^ 32"
  by (simp add: low32_def)

lemma low32_small: "length bs < 2 ^ 32 \<Longrightarrow> low32 bs = bs"
  by (simp add: low32_def)

lemma chars_colon: "chars '': '' = [58, 32]"
  by (simp add: chars_def)

lemma status_text_low32: "status_text bs1 bs2 = status_message (low32 bs1) (low32 bs2)"
  by (simp add: status_text_def status_message_def)

lemma length_status_message:
  "length (status_message bs1 bs2) = length bs1 + (if bs2 = [] then 0 else 2 + length bs2)"
  by (simp add: status_message_def chars_colon)

lemma status_message_fits:
  assumes "length (status_message bs1 bs2) + 5 < 2 ^ 32"
  shows "status_text bs1 bs2 = status_message bs1 bs2"
proof -
  have "length bs1 < 2 ^ 32" "length bs2 < 2 ^ 32"
    using assms by (auto simp: length_status_message split: if_splits)
  then show ?thesis by (simp add: status_text_low32 low32_small)
qed

text \<open>Truncating the size of a slice truncates its bytes.\<close>

lemma load_low32:
  assumes "slice_bytes m s = Some bs"
  shows "load_bytes m (sl_data s) (unat (ucast (sl_size s) :: u32)) = Some (low32 bs)"
    and "unat (ucast (sl_size s) :: u32) = length (low32 bs)"
proof -
  have size: "unat (ucast (sl_size s) :: u32) = length bs mod 2 ^ 32"
    using slice_bytes_length [OF assms] by (simp add: unsigned_ucast_eq take_bit_eq_mod)
  then show "unat (ucast (sl_size s) :: u32) = length (low32 bs)" by (simp only: length_low32)
  show "load_bytes m (sl_data s) (unat (ucast (sl_size s) :: u32)) = Some (low32 bs)"
    unfolding size low32_def using assms slice_bytes_length [OF assms]
    by (intro load_bytes_take [where n = "unat (sl_size s)"]) (simp_all add: slice_bytes_def)
qed

lemma ucast_eq_0_iff: "(ucast (sl_size s) :: u32) = 0 \<longleftrightarrow> unat (ucast (sl_size s) :: u32) = 0"
  by (simp only: unat_eq_0)

lemma Status_new_eq:
  assumes wf: "wf_store m" and bs1: "slice_bytes m msg1 = Some bs1"
    and bs2: "slice_bytes m msg2 = Some bs2" and k: "k \<noteq> kOk"
    and fits: "length (status_text bs1 bs2) + 5 < 2 ^ 32"
  shows "Status_new pf m k msg1 msg2 =
    Some (with_fresh m (state_bytes pf k (status_text bs1 bs2)), \<lparr>st_state = Ptr (next_block m) 0\<rparr>)"
proof -
  let ?w1 = "ucast (sl_size msg1) :: u32" and ?w2 = "ucast (sl_size msg2) :: u32"
  let ?txt = "status_text bs1 bs2" and ?P = "Ptr (next_block m) 0"
  let ?size = "?w1 + (if ?w2 \<noteq> 0 then 2 + ?w2 else 0)"
  note l1 = load_low32 [OF bs1] and l2 = load_low32 [OF bs2]
  have w2: "?w2 = 0 \<longleftrightarrow> low32 bs2 = []" unfolding ucast_eq_0_iff l2(2) by simp
  have len: "length ?txt = length (low32 bs1) + (if low32 bs2 = [] then 0 else 2 + length (low32 bs2))"
    by (simp add: status_text_def chars_colon)
  have size: "unat ?size = length ?txt" "unat (?size + 5) = 5 + length ?txt"
    using fits unfolding len w2 [symmetric] by (auto simp: unat_word_ariths l1(2) l2(2))
  have u1: "uint ?w1 = int (length (low32 bs1))" using arg_cong [OF l1(2), of int] by simp
  have off: "?w2 \<noteq> 0 \<Longrightarrow> uint (5 + ?w1) = int (5 + length (low32 bs1))"
     "?w2 \<noteq> 0 \<Longrightarrow> uint (6 + ?w1) = int (6 + length (low32 bs1))"
    using fits unfolding len w2 [symmetric]
    by (simp_all add: uint_word_ariths u1)
  let ?f = "fill m" and ?b1 = "low32 bs1" and ?b2 = "low32 bs2"
  define h where "h = host_bytes pf 4 (length ?txt)"
  define c where "c = h @ [word_of_nat (code_num k)]"
  define st where "st xs n = with_fresh m (xs @ replicate n ?f)" for xs n
  have lens: "length h = 4" "length c = 5" by (simp_all add: h_def c_def)
  have put: "store_bytes (st xs r) (Ptr (next_block m) i) vs = Some (st (xs @ vs) (r - length vs))"
    if "i = length xs" "length vs \<le> r" for i xs vs r
    unfolding st_def using store_with_fresh [of xs i vs r m ?f] that by simp
  have put_at: "store_at (st xs r) ?P i v = Some (st (xs @ [v]) (r - 1))"
    if "i = int (length xs)" "0 < r" for i xs v r
    unfolding st_def using store_at_with_fresh [of xs i r m ?f v] that by simp
  have ld: "load_bytes (st xs r) (sl_data msg1) (unat ?w1) = Some ?b1"
     "load_bytes (st xs r) (sl_data msg2) (unat ?w2) = Some ?b2" for xs r
    unfolding st_def using l1(1) l2(1) by (auto intro: load_with_fresh [OF wf])
  have add: "ptr_add (st xs r) (Ptr (next_block m) i) j = Some (Ptr (next_block m) (i + nat j))"
    if "0 \<le> j" "i + nat j \<le> length xs + r" for xs r i j
    unfolding st_def using that by (auto simp: blocks_with_fresh)
  have "alloc m (unat (?size + 5)) = (st [] (5 + length ?txt), ?P)"
    unfolding size(2) by (simp add: alloc_with_fresh st_def)
  moreover have "store_bytes (st [] (5 + length ?txt)) ?P h = Some (st h (1 + length ?txt))"
    using put [of 0 "[]" h "5 + length ?txt"] by (simp add: lens)
  moreover have "store_at (st h (1 + length ?txt)) ?P 4 (word_of_nat (code_num k)) = Some (st c (length ?txt))"
    using put_at [of 4 h "1 + length ?txt"] by (simp add: lens c_def)
  moreover have "ptr_add (st c (length ?txt)) ?P 5 = Some (Ptr (next_block m) 5)"
    using add [of 5 0 c] by (simp add: lens)
  moreover have "store_bytes (st c (length ?txt)) (Ptr (next_block m) 5) ?b1 =
      Some (st (c @ ?b1) (length ?txt - length ?b1))"
    by (rule put) (simp_all add: lens len)
  ultimately have first: "Status_new pf m k msg1 msg2 =
      (if ?w2 \<noteq> 0 then do {
            m' \<leftarrow> store_at (st (c @ ?b1) (length ?txt - length ?b1)) ?P (uint (5 + ?w1)) 58;
            m' \<leftarrow> store_at m' ?P (uint (6 + ?w1)) 32;
            bs2 \<leftarrow> load_bytes m' (sl_data msg2) (unat ?w2);
            p \<leftarrow> ptr_add m' ?P 7;
            p \<leftarrow> ptr_add m' p (uint ?w1);
            m' \<leftarrow> store_bytes m' p bs2;
            Some (m', \<lparr>st_state = ?P\<rparr>) }
       else Some (st (c @ ?b1) (length ?txt - length ?b1), \<lparr>st_state = ?P\<rparr>))"
    using k by (simp add: Status_new_def Let_def ld size(1) del: store_bytes.simps ptr_add.simps
        flip: h_def)
  have final: "with_fresh m (state_bytes pf k ?txt) = st (c @ ?txt) 0"
    by (simp add: st_def state_bytes_def c_def h_def)
  show ?thesis
  proof (cases "?w2 = 0")
    case True
    then have "?txt = ?b1" using w2 by (simp add: status_text_def)
    with first True final show ?thesis by simp
  next
    case False
    let ?r = "length ?txt - length ?b1"
    have r: "?r = 2 + length ?b2" using False by (simp add: len w2)
    have joined: "?txt = ?b1 @ [58, 32] @ ?b2" using False by (simp add: status_text_def chars_colon w2)
    have "store_at (st (c @ ?b1) ?r) ?P (uint (5 + ?w1)) 58 = Some (st (c @ ?b1 @ [58]) (?r - 1))"
      using put_at [of "uint (5 + ?w1)" "c @ ?b1" ?r] by (simp add: off False lens r)
    moreover have "store_at (st (c @ ?b1 @ [58]) (?r - 1)) ?P (uint (6 + ?w1)) 32 =
        Some (st (c @ ?b1 @ [58, 32]) (?r - 2))"
      using put_at [of "uint (6 + ?w1)" "c @ ?b1 @ [58]" "?r - 1"] by (simp add: off False lens r)
    moreover have "ptr_add (st (c @ ?b1 @ [58, 32]) (?r - 2)) ?P 7 = Some (Ptr (next_block m) 7)"
      using add [of 7 0 "c @ ?b1 @ [58, 32]" "?r - 2"] by (simp add: lens)
    moreover have "ptr_add (st (c @ ?b1 @ [58, 32]) (?r - 2)) (Ptr (next_block m) 7) (uint ?w1) =
        Some (Ptr (next_block m) (7 + length ?b1))"
      using add [of "uint ?w1" 7 "c @ ?b1 @ [58, 32]" "?r - 2"] by (simp add: lens l1(2))
    moreover have "store_bytes (st (c @ ?b1 @ [58, 32]) (?r - 2)) (Ptr (next_block m) (7 + length ?b1)) ?b2 =
        Some (st (c @ ?txt) 0)"
      using put [of "7 + length ?b1" "c @ ?b1 @ [58, 32]" ?b2 "?r - 2"] by (simp add: lens r joined)
    ultimately show ?thesis
      using False by (simp add: first final ld del: store_bytes.simps ptr_add.simps)
  qed
qed

text \<open>The constructor returns only when the whole array fits a \<open>uint32_t\<close>.\<close>

lemma Status_new_fits:
  assumes new: "Status_new pf m k msg1 msg2 = Some r"
    and bs1: "slice_bytes m msg1 = Some bs1" and bs2: "slice_bytes m msg2 = Some bs2"
  shows "length (status_text bs1 bs2) + 5 < 2 ^ 32"
proof -
  let ?w1 = "ucast (sl_size msg1) :: u32" and ?w2 = "ucast (sl_size msg2) :: u32"
  let ?P = "Ptr (next_block m) 0"
  define N where "N = unat (?w1 + (if ?w2 \<noteq> 0 then 2 + ?w2 else 0) + 5)"
  note l1 = load_low32(2) [OF bs1] and l2 = load_low32(2) [OF bs2]
  have w2: "?w2 = 0 \<longleftrightarrow> low32 bs2 = []" unfolding ucast_eq_0_iff l2 by simp
  obtain m0 where al: "alloc m N = (m0, ?P)" by (simp add: alloc_with_fresh)
  have room: "j \<le> int N" if "ptr_add m0 ?P j = Some q" for j q
    using that al by (auto simp: alloc_with_fresh blocks_with_fresh split: if_splits)
  note same = store_bytes_ptr_add store_at_ptr_add
  obtain m1 m2 p bs m3 where
    m1: "store_bytes m0 ?P (host_bytes pf 4 (unat (?w1 + (if ?w2 \<noteq> 0 then 2 + ?w2 else 0)))) = Some m1"
    and m2: "store_at m1 ?P 4 (word_of_nat (code_num k)) = Some m2"
    and p: "ptr_add m2 ?P 5 = Some p" and bs: "load_bytes m2 (sl_data msg1) (unat ?w1) = Some bs"
    and m3: "store_bytes m2 p bs = Some m3"
    and second: "?w2 \<noteq> 0 \<Longrightarrow> \<exists>m4 m5 bs' q q' m6. store_at m3 ?P (uint (5 + ?w1)) 58 = Some m4 \<and>
        store_at m4 ?P (uint (6 + ?w1)) 32 = Some m5 \<and>
        load_bytes m5 (sl_data msg2) (unat ?w2) = Some bs' \<and> ptr_add m5 ?P 7 = Some q \<and>
        ptr_add m5 q (uint ?w1) = Some q' \<and> store_bytes m5 q' bs' = Some m6"
    using new unfolding Status_new_def Let_def N_def [symmetric] al prod.case
    by (auto simp: bind_Some_iff simp del: ptr_add.simps store_bytes.simps load_bytes.simps split: if_splits)
  have base: "ptr_add m2 q j = ptr_add m0 q j" for q j
    by (simp only: same(1) [OF m1] same(2) [OF m2])
  have small: "N < 2 ^ 32" unfolding N_def by (rule less_le_trans [OF unsigned_less]) simp
  show ?thesis
  proof (cases "?w2 = 0")
    case True
    obtain q where "ptr_add m2 p (int (length bs)) = Some q" using store_bytes_room [OF m3] by blast
    then have "ptr_add m0 ?P (5 + int (length bs)) = Some q"
      using p ptr_add_assoc [of m0 ?P 5 p] unfolding base by simp
    from room [OF this] small load_bytes_length [OF bs] True show ?thesis
      by (simp add: status_text_def w2 [symmetric] l1)
  next
    case False
    from second [OF this] obtain m4 m5 bs' q q' m6 where
      m45: "store_at m3 ?P (uint (5 + ?w1)) 58 = Some m4" "store_at m4 ?P (uint (6 + ?w1)) 32 = Some m5"
      and bs': "load_bytes m5 (sl_data msg2) (unat ?w2) = Some bs'"
      and q: "ptr_add m5 ?P 7 = Some q" "ptr_add m5 q (uint ?w1) = Some q'"
      and m6: "store_bytes m5 q' bs' = Some m6"
      by blast
    have base': "ptr_add m5 q j = ptr_add m0 q j" for q j
      by (simp only: same(2) [OF m45(1)] same(2) [OF m45(2)] same(1) [OF m3] base)
    obtain r where "ptr_add m5 q' (int (length bs')) = Some r" using store_bytes_room [OF m6] by blast
    then have "ptr_add m0 ?P (7 + uint ?w1 + int (length bs')) = Some r"
      using q ptr_add_assoc [of m0 ?P 7 q] ptr_add_assoc [of m0 ?P "7 + uint ?w1" q']
      unfolding base' by simp
    from room [OF this] have "7 + length (low32 bs1) + length (low32 bs2) \<le> N"
      using load_bytes_length [OF bs'] l2 arg_cong [OF l1, of int] by simp
    with small False show ?thesis by (simp add: status_text_def chars_colon w2)
  qed
qed

section \<open>What a status stands for\<close>

datatype status_abs = SOk | SErr Code "byte list"

definition error_code :: "Code \<Rightarrow> bool" where
  "error_code k \<longleftrightarrow> kOk < k \<and> code_num k \<le> kMaxCode"

fun status_rep :: "platform \<Rightarrow> store \<Rightarrow> Status \<Rightarrow> status_abs \<Rightarrow> bool" where
  "status_rep pf m s SOk = (st_state s = Null)"
| "status_rep pf m s (SErr k msg) =
     (case st_state s of
        Null \<Rightarrow> False
      | Ptr b i \<Rightarrow> i = 0 \<and> blocks m b = Some (state_bytes pf k msg) \<and>
          length msg + 5 < 2 ^ 32 \<and> error_code k)"

definition status_own :: "Status \<Rightarrow> nat set" where
  "status_own s = (case st_state s of Null \<Rightarrow> {} | Ptr b i \<Rightarrow> {b})"

text \<open>
  The value a client asks for. A message that does not fit, with the separator and the five bytes of
  header, a \<open>uint32_t\<close> has none: \<open>status_new_exact\<close> says what the constructor does with it.
\<close>

fun status_input :: "store \<Rightarrow> status_init \<Rightarrow> status_abs option" where
  "status_input m DefaultInit = Some SOk"
| "status_input m OkInit = Some SOk"
| "status_input m (ErrInit k msg1 msg2) =
     do { bs1 \<leftarrow> slice_bytes m msg1;
          bs2 \<leftarrow> slice_bytes m (case msg2 of None \<Rightarrow> Slice_empty | Some s \<Rightarrow> s);
          if error_code k \<and> length (status_message bs1 bs2) + 5 < 2 ^ 32
          then Some (SErr k (status_message bs1 bs2)) else None }"

lemma status_inputE:
  assumes "status_input m i = Some a"
  obtains "a = SOk" "Status_init pf m i = Some (m, Status_OK)" "\<And>m'. status_input m' i = Some SOk"
  | k msg1 msg2 bs1 bs2 where "Status_init pf m i = Status_new pf m k msg1 msg2"
      "slice_bytes m msg1 = Some bs1" "slice_bytes m msg2 = Some bs2" "error_code k"
      "length (status_message bs1 bs2) + 5 < 2 ^ 32" "a = SErr k (status_message bs1 bs2)"
      "\<And>m'. slice_bytes m' msg1 = Some bs1 \<Longrightarrow> slice_bytes m' msg2 = Some bs2 \<Longrightarrow>
         status_input m' i = Some a"
  using assms
  by (cases i) (auto simp: bind_Some_iff Status_Err_def Status_OK_def Status_default_def split: if_splits)

lemma error_code_not_kOk: "error_code k \<Longrightarrow> k \<noteq> kOk"
  by (auto simp: error_code_def)

lemma status_repE:
  assumes "status_rep pf m s a"
  obtains "s = Status_OK" "a = SOk" "status_own s = {}"
  | b k msg where "s = \<lparr>st_state = Ptr b 0\<rparr>" "a = SErr k msg" "status_own s = {b}"
      "blocks m b = Some (state_bytes pf k msg)" "length msg + 5 < 2 ^ 32" "error_code k"
  using assms
  by (cases s; cases a) (auto simp: Status_OK_def Status_default_def status_own_def split: ptr.splits)

lemma status_rep_fresh:
  "length msg + 5 < 2 ^ 32 \<Longrightarrow> error_code k \<Longrightarrow>
     status_rep pf (with_fresh m (state_bytes pf k msg)) \<lparr>st_state = Ptr (next_block m) 0\<rparr> (SErr k msg)"
  by (simp add: blocks_with_fresh)

lemma state_block_not_0:
  assumes "wf_store m" "blocks m b = Some (state_bytes pf k msg)"
  shows "b \<noteq> 0"
proof
  assume "b = 0"
  with assms have "state_bytes pf k msg = [0]" by (simp add: wf_store_def)
  then have "length (state_bytes pf k msg) = length [0 :: byte]" by (rule arg_cong)
  then show False by simp
qed

lemma CopyState_eq:
  assumes wf: "wf_store m" and blk: "blocks m b = Some (state_bytes pf k msg)"
    and fits: "length msg + 5 < 2 ^ 32"
  shows "CopyState pf m (Ptr b 0) =
    Some (with_fresh m (state_bytes pf k msg), Ptr (next_block m) 0)"
proof -
  let ?blk = "state_bytes pf k msg" and ?f = "fill m"
  have hdr: "load_bytes m (Ptr b 0) 4 = Some (host_bytes pf 4 (length msg))"
    using blk by (simp add: state_bytes_def)
  have size: "unat ((word_of_nat (host_val pf (host_bytes pf 4 (length msg))) :: u32) + 5) = length ?blk"
    using fits by (simp add: host_val_host_bytes unat_word_ariths unat_of_nat take_bit_nat_eq_self)
  have "load_bytes m (Ptr b 0) (length ?blk) = Some ?blk" using blk by simp
  then have ld: "load_bytes (with_fresh m (replicate (length ?blk) ?f)) (Ptr b 0) (length ?blk) = Some ?blk"
    by (rule load_with_fresh [OF wf])
  have "store_bytes (with_fresh m ([] @ replicate (length ?blk) ?f)) (Ptr (next_block m) 0) ?blk =
      Some (with_fresh m (([] @ ?blk) @ replicate (length ?blk - length ?blk) ?f))"
    by (rule store_with_fresh) simp_all
  then have st: "store_bytes (with_fresh m (replicate (length ?blk) ?f)) (Ptr (next_block m) 0) ?blk =
      Some (with_fresh m ?blk)"
    by simp
  show ?thesis
    unfolding CopyState_def hdr bind.bind_lunit Let_def size alloc_with_fresh prod.case ld st ..
qed

lemma status_own_simps [simp]:
  "status_own Status_OK = {}" "status_own \<lparr>st_state = Null\<rparr> = {}" "status_own \<lparr>st_state = Ptr b i\<rparr> = {b}"
  "status_own (s\<lparr>st_state := Null\<rparr>) = {}"
  by (simp_all add: status_own_def Status_OK_def Status_default_def)

lemma Status_update: "s\<lparr>st_state := p\<rparr> = \<lparr>st_state = p\<rparr>" for s :: Status
  by (cases s) simp

lemma slice_bytes_frame:
  "slice_bytes m s = Some bs \<Longrightarrow> (\<And>b. blocks m b \<noteq> None \<Longrightarrow> blocks m' b = blocks m b) \<Longrightarrow>
     slice_bytes m' s = Some bs"
  unfolding slice_bytes_def by (rule load_bytes_frame)

section \<open>Interpretation\<close>

interpretation status: heap_value "status_rep pf" status_own status_input
  "Status_init pf" "Status_copy pf" "Status_assign pf" Status_delete
  for pf
proof
  fix m v a k
  assume "status_rep pf m v a" "k \<in> status_own v"
  then show "blocks m k \<noteq> None" by (auto elim!: status_repE)
next
  fix m m' :: store and v a
  assume v: "status_rep pf m v a" and same: "\<And>k. k \<in> status_own v \<Longrightarrow> blocks m' k = blocks m k"
  from v show "status_rep pf m' v a"
  proof (cases rule: status_repE)
    case (2 b k msg)
    with same [of b] show ?thesis by simp
  qed (simp add: Status_OK_def Status_default_def)
next
  fix m m' :: store and i a
  assume i: "status_input m i = Some a" and same: "\<And>k. blocks m k \<noteq> None \<Longrightarrow> blocks m' k = blocks m k"
  from i show "status_input m' i = Some a"
  proof (cases rule: status_inputE [where pf = pf])
    case (2 k msg1 msg2 bs1 bs2)
    then have "slice_bytes m' msg1 = Some bs1" "slice_bytes m' msg2 = Some bs2"
      by (auto intro: slice_bytes_frame same simp del: not_None_eq)
    with 2 show ?thesis by blast
  qed simp
next
  fix m i a
  assume wf: "wf_store m" and i: "status_input m i = Some a"
  from i show "\<exists>m' t. Status_init pf m i = Some (m', t) \<and>
      status_rep pf m' t a \<and> replaces m {} (status_own t) m'"
  proof (cases rule: status_inputE [where pf = pf])
    case 1
    then show ?thesis using replaces_none [OF wf] by (simp add: Status_OK_def Status_default_def)
  next
    case (2 k msg1 msg2 bs1 bs2)
    note same = status_message_fits [OF 2(5)]
    have fits: "length (status_text bs1 bs2) + 5 < 2 ^ 32" using 2(5) by (simp add: same)
    from Status_new_eq [OF wf 2(2,3) error_code_not_kOk [OF 2(4)] fits]
      status_rep_fresh [OF 2(5,4)] replaces_with_fresh [OF wf]
    show ?thesis by (simp add: 2(1,6) same del: status_rep.simps)
  qed
next
  fix m v a
  assume wf: "wf_store m" and v: "status_rep pf m v a"
  from v show "\<exists>m' t. Status_copy pf m v = Some (m', t) \<and> status_rep pf m' t a \<and>
      replaces m {} (status_own t) m'"
  proof (cases rule: status_repE)
    case 1
    then show ?thesis using replaces_none [OF wf] by (simp add: Status_copy_def Status_OK_def Status_default_def)
  next
    case (2 b k msg)
    with CopyState_eq [OF wf 2(4,5)] status_rep_fresh [OF 2(5,6)] replaces_with_fresh [OF wf]
    show ?thesis by (simp add: Status_copy_def del: status_rep.simps)
  qed
next
  fix m d
  show "Status_assign pf m d d = Some (m, d)" by (simp add: Status_assign_def)
next
  fix m d a
  assume wf: "wf_store m" and d: "status_rep pf m d a"
  from d show "\<exists>m'. Status_delete m d = Some m' \<and> replaces m (status_own d) {} m'"
  proof (cases rule: status_repE)
    case 1
    then show ?thesis using replaces_none [OF wf] by (simp add: Status_delete_def Status_OK_def Status_default_def)
  next
    case (2 b k msg)
    with replaces_free [OF wf state_block_not_0 [OF wf 2(4)]] show ?thesis
      by (simp add: Status_delete_def)
  qed
next
  fix m d a v and b :: status_abs
  assume wf: "wf_store m" and d: "status_rep pf m d a" and v: "status_rep pf m v b"
    and dis: "status_own d \<inter> status_own v = {}"
  show "\<exists>m' t. Status_assign pf m d v = Some (m', t) \<and> status_rep pf m' t b \<and>
      replaces m (status_own d) (status_own t) m'"
  proof (cases "st_state d = st_state v")
    case True
    with d v dis have "d = Status_OK" "v = Status_OK" "b = SOk"
      by (auto elim!: status_repE simp: Status_OK_def Status_default_def)
    then show ?thesis using replaces_none [OF wf] by (simp add: Status_assign_def) (simp add: Status_OK_def Status_default_def)
  next
    case False
    have "\<exists>m1. free m (st_state d) = Some m1 \<and> replaces m (status_own d) {} m1"
      using d
    proof (cases rule: status_repE)
      case (2 k' c msg)
      with replaces_free [OF wf state_block_not_0 [OF wf 2(4)]] show ?thesis by simp
    qed (use replaces_none [OF wf] in \<open>simp add: Status_OK_def Status_default_def\<close>)
    then obtain m1 where m1: "free m (st_state d) = Some m1" "replaces m (status_own d) {} m1"
      by blast
    from v show ?thesis
    proof (cases rule: status_repE)
      case 1
      with False m1 show ?thesis by (simp add: Status_assign_def Status_OK_def Status_default_def)
    next
      case (2 c k msg)
      have wf1: "wf_store m1" using m1(2) by (rule replaces_wf)
      have "blocks m1 c = Some (state_bytes pf k msg)"
        using replaces_other [OF m1(2), of c] 2 dis by simp
      note copy = CopyState_eq [OF wf1 this 2(5)]
      have "next_block m1 \<notin> status_own d"
        using d m1 wf by (auto elim!: status_repE simp: wf_store_def not_le split: if_splits)
      then have "replaces m (status_own d) {next_block m1} (with_fresh m1 (state_bytes pf k msg))"
        using replaces_trans [OF m1(2) replaces_with_fresh [OF wf1]] by simp
      then show ?thesis
        using False m1(1) copy 2 status_rep_fresh [OF 2(5,6)]
        by (simp add: Status_assign_def Status_update del: status_rep.simps)
    qed
  qed
qed

section \<open>Accessors\<close>

lemma state_bytes_at_4: "state_bytes pf k msg ! 4 = word_of_nat (code_num k)"
  by (simp add: state_bytes_def nth_append)

lemma Status_code_rep:
  assumes "status_rep pf m s a"
  shows "Status_code m s = Some (case a of SOk \<Rightarrow> kOk | SErr k msg \<Rightarrow> k)"
  using assms
proof (cases rule: status_repE)
  case (2 b k msg)
  have "load_bytes m (Ptr b 0) (length (state_bytes pf k msg)) = Some (state_bytes pf k msg)"
    using 2 by simp
  from load_bytes_nth [OF this, of 4] have "load_at m (Ptr b 0) 4 = Some (word_of_nat (code_num k))"
    by (auto simp: load_at_def state_bytes_at_4)
  then show ?thesis using 2 by (simp add: Status_code_def)
qed (simp add: Status_code_def Status_OK_def Status_default_def)

lemma error_code_string: "error_code k \<Longrightarrow> code_num k < length kCodeString"
  by (simp add: error_code_def kMaxCode_def kCodeString_def)

lemma Status_ToString_rep:
  assumes "status_rep pf m s (SErr k msg)"
  shows "Status_ToString pf m s = Some (kCodeString ! code_num k @
     (if msg = [] then [] else chars '': '' @ msg))"
proof -
  from assms obtain b where s: "s = \<lparr>st_state = Ptr b 0\<rparr>" and
    b: "blocks m b = Some (state_bytes pf k msg)" "length msg + 5 < 2 ^ 32" "error_code k"
    by (rule status_repE) (simp_all add: Status_OK_def Status_default_def)
  have all: "load_bytes m (Ptr b 0) (length (state_bytes pf k msg)) = Some (state_bytes pf k msg)"
    using b by simp
  have hdr: "load_bytes m (Ptr b 0) 4 = Some (host_bytes pf 4 (length msg))"
    using b by (simp add: state_bytes_def)
  have len: "unat (word_of_nat (host_val pf (host_bytes pf 4 (length msg))) :: u32) = length msg"
    using b(2) by (simp add: host_val_host_bytes unat_of_nat take_bit_nat_eq_self)
  then have zero: "(word_of_nat (host_val pf (host_bytes pf 4 (length msg))) :: u32) = 0 \<longleftrightarrow> msg = []"
    by (metis length_0_conv unat_eq_0)
  obtain q where q: "ptr_add m (Ptr b 0) 5 = Some q" "load_bytes m q (length msg) = Some msg"
    using load_bytes_drop [OF all, of 5] by (auto simp: state_bytes_def)
  have "Status_err_code m s = Some (code_num k)"
    using Status_code_rep [OF assms] by (simp add: Status_err_code_def)
  with error_code_string [OF b(3)] hdr len zero q show ?thesis
    by (simp add: Status_ToString_def s del: load_bytes.simps ptr_add.simps)
qed

section \<open>Properties\<close>

text \<open>
  C23: the constructor of an error status builds exactly the documented array, in a fresh object,
  whenever the two messages, the separator and the five bytes of header fit a \<open>uint32_t\<close>, and
  touches nothing else. When they do not, the documented array is never built: the size of each
  message is cut modulo \<open>2 ^ 32\<close>; if what is left fits, the status holds that other, shorter
  text, and otherwise the size of the allocation wraps and the constructor writes outside it.
\<close>

theorem status_new_exact:
  assumes "wf_store m" "slice_bytes m msg1 = Some bs1" "slice_bytes m msg2 = Some bs2" "k \<noteq> kOk"
  shows "if length (status_message bs1 bs2) + 5 < 2 ^ 32
     then Status_new pf m k msg1 msg2 =
       Some (with_fresh m (host_bytes pf 4 (length (status_message bs1 bs2)) @
               word_of_nat (code_num k) # status_message bs1 bs2),
             \<lparr>st_state = Ptr (next_block m) 0\<rparr>)
     else let cut = status_message (take (length bs1 mod 2 ^ 32) bs1) (take (length bs2 mod 2 ^ 32) bs2)
       in Status_new pf m k msg1 msg2 =
         (if length cut + 5 < 2 ^ 32
          then Some (with_fresh m (host_bytes pf 4 (length cut) @ word_of_nat (code_num k) # cut),
                     \<lparr>st_state = Ptr (next_block m) 0\<rparr>)
          else None)"
proof -
  let ?cut = "status_text bs1 bs2"
  have new: "Status_new pf m k msg1 msg2 =
    (if length ?cut + 5 < 2 ^ 32
     then Some (with_fresh m (host_bytes pf 4 (length ?cut) @ word_of_nat (code_num k) # ?cut),
                \<lparr>st_state = Ptr (next_block m) 0\<rparr>)
     else None)"
    using Status_new_eq [OF assms, of pf] Status_new_fits [OF _ assms(2,3), of pf k]
    by (cases "Status_new pf m k msg1 msg2") (auto simp: state_bytes_def)
  show ?thesis
  proof (cases "length (status_message bs1 bs2) + 5 < 2 ^ 32")
    case True
    with new show ?thesis by (simp add: status_message_fits)
  next
    case False
    then show ?thesis unfolding Let_def low32_def [symmetric] status_text_low32 [symmetric]
      using new by simp
  qed
qed

theorem status_new_exact_witness:
  "Status_new \<lparr>kLittleEndian = True, NDEBUG = True\<rparr> (two_blocks [102] [120]) kIOError
     (Slice_new (Ptr 1 0) 1) (Slice_new (Ptr 2 0) 1) =
   Some (with_fresh (two_blocks [102] [120]) [4, 0, 0, 0, 6, 102, 58, 32, 120], \<lparr>st_state = Ptr 3 0\<rparr>)"
proof -
  let ?m = "two_blocks [102] [120]"
  have "wf_store ?m" "slice_bytes ?m (Slice_new (Ptr 1 0) 1) = Some [102]"
    "slice_bytes ?m (Slice_new (Ptr 2 0) 1) = Some [120]" "kIOError \<noteq> kOk"
    by (simp_all add: wf_store_def two_blocks_def slice_bytes_def Slice_new_def)
  note new = status_new_exact [OF this]
  have msg: "status_message [102] [120] = [102, 58, 32, 120]"
    by (simp add: status_message_def chars_colon)
  have hdr: "host_bytes \<lparr>kLittleEndian = True, NDEBUG = True\<rparr> 4 (length [102, 58, 32, 120 :: byte]) = [4, 0, 0, 0]"
    by (simp add: host_bytes_def le_bytes_numeral)
  have nb: "next_block ?m = 3" by (simp add: two_blocks_def)
  show ?thesis using new [of "\<lparr>kLittleEndian = True, NDEBUG = True\<rparr>"] unfolding msg hdr nb by simp
qed

text \<open>
  C35: what a status says of itself: \<open>ok()\<close>, \<open>code()\<close>, the \<open>Is\<close> tests, and \<open>ToString()\<close>, which is
  \<open>OK\<close>, the name of the code, or the name and the message; the table of names is never read out
  of its bounds.
\<close>

theorem status_accessors:
  assumes "status_rep pf m s a"
  shows "case a of
      SOk \<Rightarrow> Status_ok s \<and> Status_Is m k s = Some (k = kOk) \<and> Status_err_code m s = Some 0 \<and>
        Status_ToString pf m s = Some (chars ''OK'')
    | SErr c msg \<Rightarrow> \<not> Status_ok s \<and> Status_Is m k s = Some (k = c) \<and>
        Status_err_code m s = Some (code_num c) \<and>
        Status_ToString pf m s = Some (kCodeString ! code_num c @
          (if msg = [] then [] else chars '': '' @ msg))"
proof (cases a)
  case SOk
  with assms Status_code_rep [OF assms] show ?thesis
    by (auto simp: Status_Is_def Status_ok_def Status_err_code_def Status_ToString_def)
next
  case (SErr c msg)
  then have "\<not> Status_ok s" using assms by (auto simp: Status_ok_def)
  with SErr Status_code_rep [OF assms] Status_ToString_rep [of pf m s c msg] assms show ?thesis
    by (auto simp: Status_Is_def Status_err_code_def)
qed

theorem status_accessors_witness:
  "Status_ToString \<lparr>kLittleEndian = False, NDEBUG = True\<rparr> (store_of [0, 0, 0, 1, 1, 102])
     \<lparr>st_state = Ptr 1 0\<rparr> = Some (chars ''Not found: f'')"
proof -
  have "host_bytes \<lparr>kLittleEndian = False, NDEBUG = True\<rparr> 4 1 = [0, 0, 0, 1]"
    by (simp add: host_bytes_def le_bytes_numeral)
  then have "status_rep \<lparr>kLittleEndian = False, NDEBUG = True\<rparr> (store_of [0, 0, 0, 1, 1, 102])
      \<lparr>st_state = Ptr 1 0\<rparr> (SErr kNotFound [102])"
    by (simp add: state_bytes_def error_code_def less_Code_def kMaxCode_def)
  from status_accessors [OF this, of kNotFound] show ?thesis
    by (simp add: kCodeString_def chars_def)
qed

text \<open>
  Assignment gives the target the value of the source and leaves the source its own; it frees
  the target's old array, allocates at most one new one, and touches nothing else. Assigning a
  status to itself does nothing.
\<close>

lemma status_assign_value:
  assumes "wf_store m" "status_rep pf m d a" "status_rep pf m v b"
    and "status_own d \<inter> status_own v = {}"
  shows "\<exists>m' d'. Status_assign pf m d v = Some (m', d') \<and> status_rep pf m' d' b \<and>
     status_rep pf m' v b \<and> status_own d' \<inter> status_own v = {} \<and>
     (\<forall>x. x \<notin> status_own d' \<longrightarrow> blocks m' x = (if x \<in> status_own d then None else blocks m x)) \<and>
     Status_assign pf m v v = Some (m, v)"
proof -
  obtain m' d' where as: "Status_assign pf m d v = Some (m', d')" "status_rep pf m' d' b"
      and rpl: "replaces m (status_own d) (status_own d') m'"
    using status.asg [OF assms] by blast
  have new: "status_own d' \<inter> status_own v = {}"
    using status.own_live [OF assms(3)] rpl by (auto simp: replaces_def simp del: not_None_eq)
  have "blocks m' x = blocks m x" if "x \<in> status_own v" for x
    using that new assms(4) by (intro replaces_other [OF rpl]) auto
  then have "status_rep pf m' v b" by (rule status.rep_frame [OF assms(3)])
  moreover have "\<forall>x. x \<notin> status_own d' \<longrightarrow> blocks m' x = (if x \<in> status_own d then None else blocks m x)"
    using rpl by (simp add: replaces_def)
  ultimately show ?thesis using as new status.asg_self by blast
qed

lemma status_assign_value_witness:
  "\<exists>m' d'. Status_assign \<lparr>kLittleEndian = True, NDEBUG = True\<rparr>
       (two_blocks [1, 0, 0, 0, 6, 102] [0, 0, 0, 0, 1]) \<lparr>st_state = Ptr 1 0\<rparr> \<lparr>st_state = Ptr 2 0\<rparr> =
     Some (m', d') \<and>
     status_rep \<lparr>kLittleEndian = True, NDEBUG = True\<rparr> m' d' (SErr kNotFound [])"
proof -
  let ?pf = "\<lparr>kLittleEndian = True, NDEBUG = True\<rparr>"
  let ?m = "two_blocks [1, 0, 0, 0, 6, 102] [0, 0, 0, 0, 1]"
  have "host_bytes ?pf 4 1 = [1, 0, 0, 0]" "host_bytes ?pf 4 0 = [0, 0, 0, 0]"
    by (simp_all add: host_bytes_def le_bytes_numeral)
  then have "wf_store ?m" "status_rep ?pf ?m \<lparr>st_state = Ptr 1 0\<rparr> (SErr kIOError [102])"
    "status_rep ?pf ?m \<lparr>st_state = Ptr 2 0\<rparr> (SErr kNotFound [])"
    "status_own \<lparr>st_state = Ptr 1 0\<rparr> \<inter> status_own \<lparr>st_state = Ptr 2 0\<rparr> = {}"
    by (simp_all add: wf_store_def two_blocks_def state_bytes_def error_code_def less_Code_def kMaxCode_def)
  from status_assign_value [OF this] show ?thesis by blast
qed

text \<open>
  C3: \<open>Status\<close> has value semantics: every program that makes statuses, with \<open>Status()\<close>, \<open>OK()\<close> or any
  of the error constructors on messages that fit (with the separator and the five bytes of header,
  below 4 GiB), copies, assigns and destroys them, runs without a memory error, whatever the order
  and whether a status is OK or not, and each of its variables then stands for the value the same
  program computes on plain values; the memory of the messages and of the rest of the process is as
  it was.
\<close>

theorem status_client_refines:
  assumes "wf_store m" "value_run (status_input m) cs Map.empty = Some A"
  shows "\<exists>m' V. client_run (Status_init pf) (Status_copy pf) (Status_assign pf) Status_delete
       cs (m, Map.empty) = Some (m', V) \<and>
     (\<forall>x. rel_option (status_rep pf m') (V x) (A x)) \<and>
     (\<forall>b. blocks m b \<noteq> None \<longrightarrow> blocks m' b = blocks m b)"
  using status.client_run_refines [OF status.inv_start [OF assms(1)] assms(2), of pf]
  unfolding client_inv_def by blast

theorem status_client_refines_witness:
  "\<exists>m' V. client_run (Status_init \<lparr>kLittleEndian = True, NDEBUG = False\<rparr>)
       (Status_copy \<lparr>kLittleEndian = True, NDEBUG = False\<rparr>)
       (Status_assign \<lparr>kLittleEndian = True, NDEBUG = False\<rparr>) Status_delete
       [Construct 0 (ErrInit kIOError (Slice_new (Ptr 1 0) 2) None), CopyConstruct 1 0,
        Construct 2 DefaultInit, CopyConstruct 3 2, AssignOp 0 2, AssignOp 2 1, AssignOp 2 2,
        Construct 4 OkInit, AssignOp 4 3, AssignOp 4 1, Destruct 1]
       (store_of [102, 103], Map.empty) = Some (m', V) \<and>
     rel_option (status_rep \<lparr>kLittleEndian = True, NDEBUG = False\<rparr> m') (V 0) (Some SOk) \<and>
     rel_option (status_rep \<lparr>kLittleEndian = True, NDEBUG = False\<rparr> m') (V 4) (Some (SErr kIOError [102, 103]))"
proof -
  let ?m = "store_of [102, 103]" and ?pf = "\<lparr>kLittleEndian = True, NDEBUG = False\<rparr>"
  let ?e = "SErr kIOError [102, 103]"
  let ?cs = "[Construct 0 (ErrInit kIOError (Slice_new (Ptr 1 0) 2) None), CopyConstruct 1 0,
        Construct 2 DefaultInit, CopyConstruct 3 2, AssignOp 0 2, AssignOp 2 1, AssignOp 2 2,
        Construct 4 OkInit, AssignOp 4 3, AssignOp 4 1, Destruct 1]"
  have "status_input ?m (ErrInit kIOError (Slice_new (Ptr 1 0) 2) None) = Some ?e"
    by (simp add: slice_bytes_def Slice_new_def Slice_empty_def store_of_def
        status_message_def error_code_def less_Code_def kMaxCode_def)
  then have "value_run (status_input ?m) ?cs Map.empty =
      Some ([0 \<mapsto> ?e, 1 \<mapsto> ?e, 2 \<mapsto> SOk, 3 \<mapsto> SOk, 0 \<mapsto> SOk, 2 \<mapsto> ?e, 2 \<mapsto> ?e,
             4 \<mapsto> SOk, 4 \<mapsto> SOk, 4 \<mapsto> ?e](1 := None))" (is "_ = Some ?A")
    by (simp del: fun_upd_apply add: fun_upd_other fun_upd_same)
  from status_client_refines [OF wf_store_of this, of ?pf] obtain m' V where
    run: "client_run (Status_init ?pf) (Status_copy ?pf) (Status_assign ?pf) Status_delete ?cs
       (?m, Map.empty) = Some (m', V)"
    and rel: "\<forall>x. rel_option (status_rep ?pf m') (V x) (?A x)"
    by blast
  have "?A 0 = Some SOk" "?A 4 = Some ?e" by simp_all
  with rel have "rel_option (status_rep ?pf m') (V 0) (Some SOk)"
    "rel_option (status_rep ?pf m') (V 4) (Some ?e)" by metis+
  with run show ?thesis by blast
qed

text \<open>
  C17: nothing leaks and nothing is freed twice: a program on OK and error statuses that destroys
  all of them leaves the heap as it found it (the messages below 4 GiB, as above).
\<close>

theorem status_client_no_leak:
  assumes "wf_store m" "value_run (status_input m) cs Map.empty = Some Map.empty"
  shows "\<exists>m'. client_run (Status_init pf) (Status_copy pf) (Status_assign pf) Status_delete
       cs (m, Map.empty) = Some (m', Map.empty) \<and>
     blocks m' = blocks m"
proof -
  obtain m' V where run: "client_run (Status_init pf) (Status_copy pf) (Status_assign pf) Status_delete
       cs (m, Map.empty) = Some (m', V)"
    and inv: "status.inv pf m m' V Map.empty"
    using status.client_run_refines [OF status.inv_start [OF assms(1)] assms(2), of pf] by blast
  have "V = Map.empty" using status.inv_dom [OF inv] by auto
  with run inv status.inv_end show ?thesis by blast
qed

theorem status_client_no_leak_witness:
  "\<exists>m'. client_run (Status_init \<lparr>kLittleEndian = True, NDEBUG = False\<rparr>)
       (Status_copy \<lparr>kLittleEndian = True, NDEBUG = False\<rparr>)
       (Status_assign \<lparr>kLittleEndian = True, NDEBUG = False\<rparr>) Status_delete
       [Construct 0 (ErrInit kNotFound Slice_empty None), CopyConstruct 1 0, Construct 2 OkInit,
        AssignOp 1 2, Destruct 0, Destruct 2, Destruct 1]
       (empty_store, Map.empty) = Some (m', Map.empty) \<and> blocks m' = blocks empty_store"
proof -
  have in0: "status_input empty_store (ErrInit kNotFound Slice_empty None) = Some (SErr kNotFound [])"
    by (simp_all add: slice_bytes_def Slice_empty_def empty_store_def
        status_message_def error_code_def less_Code_def kMaxCode_def)
  have "value_run (status_input empty_store)
      [Construct 0 (ErrInit kNotFound Slice_empty None), CopyConstruct 1 0, Construct 2 OkInit,
        AssignOp 1 2, Destruct 0, Destruct 2, Destruct 1] Map.empty = Some Map.empty"
    using in0 by (simp add: fun_upd_twist del: status_input.simps(3))
  from status_client_no_leak [OF wf_empty_store this] show ?thesis .
qed

end
