(* ===== verification/C2_IO.thy ===== *)
theory C2_IO
  imports C2_Status C2_Text
begin

text \<open>
  \<open>IO\<close> and \<open>WritableFile\<close> (\<open>c2_io.h\<close>, \<open>c2_io_posix.h\<close>, \<open>c2_io_posix.cc\<close>). The operating system and
  the C library are not in the repository: the record \<open>os\<close> holds their functions on a state
  \<open>'w\<close> of the world. A \<open>Status\<close> is the value it stands for (\<open>C2_Status\<close> proves that the class is one,
  \<open>C2_ErrorValue\<close> that the objects made here are those values), and a C string is the list of its
  characters.
\<close>

section \<open>The operating system\<close>

record 'w os =
  os_open :: "byte list \<Rightarrow> u32 \<Rightarrow> u32 \<Rightarrow> 'w \<Rightarrow> int \<times> 'w"
  os_write :: "int \<Rightarrow> byte list \<Rightarrow> 'w \<Rightarrow> int \<times> 'w"
  os_fdatasync :: "int \<Rightarrow> 'w \<Rightarrow> int \<times> 'w"
  os_close :: "int \<Rightarrow> 'w \<Rightarrow> int \<times> 'w"
  os_mkdir :: "byte list \<Rightarrow> u32 \<Rightarrow> 'w \<Rightarrow> int \<times> 'w"
  os_fopen :: "byte list \<Rightarrow> byte list \<Rightarrow> 'w \<Rightarrow> nat option \<times> 'w"
  os_fwrite :: "nat \<Rightarrow> byte list \<Rightarrow> 'w \<Rightarrow> nat \<times> 'w"
  os_fflush :: "nat option \<Rightarrow> 'w \<Rightarrow> int \<times> 'w"
  os_fclose :: "nat \<Rightarrow> 'w \<Rightarrow> int \<times> 'w"
  os_fileno :: "nat \<Rightarrow> 'w \<Rightarrow> int"
  os_errno :: "'w \<Rightarrow> int"
  os_getenv :: "byte list \<Rightarrow> 'w \<Rightarrow> byte list option"
  os_geteuid :: "'w \<Rightarrow> u32"
  os_strerror :: "int \<Rightarrow> byte list"

text \<open>
  \<open>open\<close> takes the flags and the mode of a file it creates, \<open>mkdir\<close> the mode, \<open>fopen\<close> its mode string.
  \<open>fflush\<close> (\<open>fflush_unlocked\<close> on Linux) accepts a null pointer, here \<open>None\<close>, and then flushes every open
  stream; the other functions on a \<open>FILE\<close> do not accept one.

  The numbers of \<open>errno.h\<close> and \<open>fcntl.h\<close> on Linux.
\<close>

definition EEXIST :: int where "EEXIST = 17"
definition ENOENT :: int where "ENOENT = 2"
definition EACCES :: int where "EACCES = 13"

definition O_WRONLY :: u32 where "O_WRONLY = 0x1"
definition O_CREAT :: u32 where "O_CREAT = 0x40"
definition O_TRUNC :: u32 where "O_TRUNC = 0x200"

text \<open>\<open>Status::Err(msg, msg2)\<close>: the value of the status it constructs (\<open>C2_Status.Status_new_eq\<close>).\<close>

definition err_status :: "Code \<Rightarrow> byte list \<Rightarrow> byte list \<Rightarrow> status_abs" where
  "err_status k msg msg2 = SErr k (status_text msg msg2)"

lemma err_status_not_OK [simp]: "err_status k a b \<noteq> SOk"
  by (simp add: err_status_def)

definition PosixError :: "'w os \<Rightarrow> byte list \<Rightarrow> int \<Rightarrow> status_abs" where
  "PosixError os err_context err_number =
     (if err_number = EEXIST then err_status kAlreadyExists err_context []
      else if err_number = ENOENT then err_status kNotFound err_context []
      else if err_number = EACCES then err_status kAccessDenied err_context []
      else err_status kIOError err_context (os_strerror os err_number))"

lemma PosixError_not_OK [simp]: "PosixError os c e \<noteq> SOk"
  by (simp add: PosixError_def)

section \<open>Unbuffered files\<close>

record PosixWritableFile =
  pw_filename :: "byte list"
  pw_fd :: int

definition PosixWritableFile_new :: "byte list \<Rightarrow> int \<Rightarrow> PosixWritableFile" where
  "PosixWritableFile_new fname fd = \<lparr>pw_filename = fname, pw_fd = fd\<rparr>"

definition PosixWritableFile_delete :: "'w os \<Rightarrow> PosixWritableFile \<Rightarrow> 'w \<Rightarrow> 'w" where
  "PosixWritableFile_delete os f w =
     (if pw_fd f \<noteq> - 1 then snd (os_close os (pw_fd f) w) else w)"

text \<open>
  \<open>nw != buf.size()\<close> compares as \<open>size_t\<close>, where \<open>-1\<close> is larger than the size of any object.
\<close>

definition PosixWritableFile_Append :: "'w os \<Rightarrow> PosixWritableFile \<Rightarrow> byte list \<Rightarrow> 'w \<Rightarrow> status_abs \<times> 'w" where
  "PosixWritableFile_Append os f buf w =
     (if buf = [] then (SOk, w)
      else let (nw, w) = os_write os (pw_fd f) buf w in
        if nw \<noteq> int (length buf) then (PosixError os (pw_filename f) (os_errno os w), w)
        else (SOk, w))"

definition PosixWritableFile_Close :: "'w os \<Rightarrow> PosixWritableFile \<Rightarrow> 'w \<Rightarrow> status_abs \<times> PosixWritableFile \<times> 'w" where
  "PosixWritableFile_Close os f w =
     (let (_, w) = os_close os (pw_fd f) w in (SOk, f\<lparr>pw_fd := - 1\<rparr>, w))"

definition PosixWritableFile_Flush :: "'w os \<Rightarrow> PosixWritableFile \<Rightarrow> 'w \<Rightarrow> status_abs \<times> 'w" where
  "PosixWritableFile_Flush os f w = (SOk, w)"

definition PosixWritableFile_Sync :: "'w os \<Rightarrow> PosixWritableFile \<Rightarrow> 'w \<Rightarrow> status_abs \<times> 'w" where
  "PosixWritableFile_Sync os f w =
     (let (r, w) = os_fdatasync os (pw_fd f) w in
      if r \<noteq> 0 then (PosixError os (pw_filename f) (os_errno os w), w) else (SOk, w))"

section \<open>Buffered files\<close>

text \<open>
  \<open>file_\<close> is \<open>None\<close> for a null pointer. \<open>fwrite\<close>, \<open>fclose\<close> and \<open>fileno\<close> do not accept one; \<open>fflush\<close> does, so
  that \<open>Flush\<close> is defined on a closed file.
\<close>

record PosixBufferedWritableFile =
  pb_filename :: "byte list"
  pb_file :: "nat option"

definition PosixBufferedWritableFile_new :: "byte list \<Rightarrow> nat \<Rightarrow> PosixBufferedWritableFile" where
  "PosixBufferedWritableFile_new fname h = \<lparr>pb_filename = fname, pb_file = Some h\<rparr>"

definition PosixBufferedWritableFile_delete :: "'w os \<Rightarrow> PosixBufferedWritableFile \<Rightarrow> 'w \<Rightarrow> 'w" where
  "PosixBufferedWritableFile_delete os f w =
     (case pb_file f of None \<Rightarrow> w | Some h \<Rightarrow> snd (os_fclose os h w))"

definition PosixBufferedWritableFile_Append :: "'w os \<Rightarrow> PosixBufferedWritableFile \<Rightarrow> byte list \<Rightarrow> 'w \<Rightarrow>
    (status_abs \<times> 'w) option" where
  "PosixBufferedWritableFile_Append os f data w =
     do { h \<leftarrow> pb_file f;
          let (r, w) = os_fwrite os h data w;
          Some (if r \<noteq> length data then PosixError os (pb_filename f) (os_errno os w) else SOk, w) }"

definition PosixBufferedWritableFile_Close :: "'w os \<Rightarrow> PosixBufferedWritableFile \<Rightarrow> 'w \<Rightarrow>
    (status_abs \<times> PosixBufferedWritableFile \<times> 'w) option" where
  "PosixBufferedWritableFile_Close os f w =
     do { h \<leftarrow> pb_file f;
          let (r, w) = os_fclose os h w;
          Some (if r \<noteq> 0 then PosixError os (pb_filename f) (os_errno os w) else SOk,
                f\<lparr>pb_file := None\<rparr>, w) }"

definition PosixBufferedWritableFile_Flush :: "'w os \<Rightarrow> PosixBufferedWritableFile \<Rightarrow> 'w \<Rightarrow>
    (status_abs \<times> 'w) option" where
  "PosixBufferedWritableFile_Flush os f w =
     (let (r, w) = os_fflush os (pb_file f) w in
      Some (if r \<noteq> 0 then PosixError os (pb_filename f) (os_errno os w) else SOk, w))"

definition PosixBufferedWritableFile_Sync :: "'w os \<Rightarrow> PosixBufferedWritableFile \<Rightarrow> 'w \<Rightarrow>
    (status_abs \<times> 'w) option" where
  "PosixBufferedWritableFile_Sync os f w =
     do { (result, w) \<leftarrow> PosixBufferedWritableFile_Flush os f w;
          if result \<noteq> SOk then Some (result, w)
          else do {
            h \<leftarrow> pb_file f;
            let (r, w) = os_fdatasync os (os_fileno os h w) w;
            Some (if r \<noteq> 0 then PosixError os (pb_filename f) (os_errno os w) else SOk, w) } }"

section \<open>\<open>WritableFile\<close>\<close>

text \<open>The virtual functions dispatch on the class of the file.\<close>

datatype WritableFile =
    Unbuffered PosixWritableFile
  | Buffered PosixBufferedWritableFile

fun WritableFile_Append :: "'w os \<Rightarrow> WritableFile \<Rightarrow> byte list \<Rightarrow> 'w \<Rightarrow> (status_abs \<times> 'w) option" where
  "WritableFile_Append os (Unbuffered f) data w = Some (PosixWritableFile_Append os f data w)"
| "WritableFile_Append os (Buffered f) data w = PosixBufferedWritableFile_Append os f data w"

fun WritableFile_Flush :: "'w os \<Rightarrow> WritableFile \<Rightarrow> 'w \<Rightarrow> (status_abs \<times> 'w) option" where
  "WritableFile_Flush os (Unbuffered f) w = Some (PosixWritableFile_Flush os f w)"
| "WritableFile_Flush os (Buffered f) w = PosixBufferedWritableFile_Flush os f w"

fun WritableFile_Sync :: "'w os \<Rightarrow> WritableFile \<Rightarrow> 'w \<Rightarrow> (status_abs \<times> 'w) option" where
  "WritableFile_Sync os (Unbuffered f) w = Some (PosixWritableFile_Sync os f w)"
| "WritableFile_Sync os (Buffered f) w = PosixBufferedWritableFile_Sync os f w"

fun WritableFile_Close :: "'w os \<Rightarrow> WritableFile \<Rightarrow> 'w \<Rightarrow> (status_abs \<times> WritableFile \<times> 'w) option" where
  "WritableFile_Close os (Unbuffered f) w =
     (let (s, f, w) = PosixWritableFile_Close os f w in Some (s, Unbuffered f, w))"
| "WritableFile_Close os (Buffered f) w =
     do { (s, f, w) \<leftarrow> PosixBufferedWritableFile_Close os f w; Some (s, Buffered f, w) }"

fun WritableFile_delete :: "'w os \<Rightarrow> WritableFile \<Rightarrow> 'w \<Rightarrow> 'w" where
  "WritableFile_delete os (Unbuffered f) w = PosixWritableFile_delete os f w"
| "WritableFile_delete os (Buffered f) w = PosixBufferedWritableFile_delete os f w"

section \<open>\<open>IO\<close>\<close>

text \<open>
  The classes of objects behind an \<open>IO*\<close>: an \<open>IOWrapper\<close> that overrides nothing, and the wrapper that
  overrides \<open>NewWritableFile\<close>, each with its \<open>target_\<close>.
\<close>

datatype IO = PosixIO | IOWrapper IO | PosixLibcBufferedIOWrapper IO

fun IOWrapper_target :: "IO \<Rightarrow> IO option" where
  "IOWrapper_target PosixIO = None"
| "IOWrapper_target (IOWrapper t) = Some t"
| "IOWrapper_target (PosixLibcBufferedIOWrapper t) = Some t"

text \<open>\<open>NewWritableFile\<close>: the status and \<open>*r\<close>. The mode \<open>0644\<close> is 420, and \<open>0755\<close> below is 493.\<close>

definition PosixIO_NewWritableFile :: "'w os \<Rightarrow> byte list \<Rightarrow> 'w \<Rightarrow> status_abs \<times> WritableFile option \<times> 'w" where
  "PosixIO_NewWritableFile os fname w =
     (let (fd, w) = os_open os fname (O_WRONLY OR O_CREAT OR O_TRUNC) 420 w in
      if fd \<noteq> - 1 then (SOk, Some (Unbuffered (PosixWritableFile_new fname fd)), w)
      else (PosixError os fname (os_errno os w), None, w))"

definition PosixLibcBufferedIOWrapper_NewWritableFile :: "'w os \<Rightarrow> byte list \<Rightarrow> 'w \<Rightarrow>
    status_abs \<times> WritableFile option \<times> 'w" where
  "PosixLibcBufferedIOWrapper_NewWritableFile os fname w =
     (let (f, w) = os_fopen os fname (chars ''w'') w in
      case f of
        Some h \<Rightarrow> (SOk, Some (Buffered (PosixBufferedWritableFile_new fname h)), w)
      | None \<Rightarrow> (PosixError os fname (os_errno os w), None, w))"

definition PosixIO_CreateDir :: "'w os \<Rightarrow> byte list \<Rightarrow> 'w \<Rightarrow> status_abs \<times> 'w" where
  "PosixIO_CreateDir os dirname w =
     (let (r, w) = os_mkdir os dirname 493 w in
      if r \<noteq> 0 then (PosixError os dirname (os_errno os w), w) else (SOk, w))"

text \<open>\<open>snprintf\<close> into a buffer of \<open>n\<close> bytes, the last of which is the terminator.\<close>

definition snprintf :: "nat \<Rightarrow> byte list \<Rightarrow> byte list" where
  "snprintf n s = take (n - 1) s"

definition is_AlreadyExists :: "status_abs \<Rightarrow> bool" where
  "is_AlreadyExists s = (case s of SOk \<Rightarrow> False | SErr k msg \<Rightarrow> k = kAlreadyExists)"

definition unset_or_empty :: "byte list option \<Rightarrow> bool" where
  "unset_or_empty env = (env = None \<or> env = Some [])"

text \<open>The status and \<open>*result\<close>.\<close>

definition PosixIO_GetTestDirectory :: "'w os \<Rightarrow> 'w \<Rightarrow> status_abs \<times> byte list \<times> 'w" where
  "PosixIO_GetTestDirectory os w =
     (let env = os_getenv os (chars ''C2_TEST_TMPDIR'') w;
          env = (if unset_or_empty env then os_getenv os (chars ''TEST_TMPDIR'') w else env);
          result = (if unset_or_empty env
             then snprintf 100 (chars ''/tmp/c2-test-'' @ dec_int (sint (os_geteuid os w)))
             else the env);
          (status, w) = PosixIO_CreateDir os result w;
          status = (if is_AlreadyExists status then SOk else status)
      in (status, result, w))"

text \<open>
  The virtual functions. \<open>IOWrapper\<close> forwards every call to its target; the wrapper of the C library
  inherits all but \<open>NewWritableFile\<close>.
\<close>

fun IO_NewWritableFile :: "'w os \<Rightarrow> IO \<Rightarrow> byte list \<Rightarrow> 'w \<Rightarrow> status_abs \<times> WritableFile option \<times> 'w" where
  "IO_NewWritableFile os PosixIO fname w = PosixIO_NewWritableFile os fname w"
| "IO_NewWritableFile os (IOWrapper t) fname w = IO_NewWritableFile os t fname w"
| "IO_NewWritableFile os (PosixLibcBufferedIOWrapper t) fname w =
     PosixLibcBufferedIOWrapper_NewWritableFile os fname w"

fun IO_CreateDir :: "'w os \<Rightarrow> IO \<Rightarrow> byte list \<Rightarrow> 'w \<Rightarrow> status_abs \<times> 'w" where
  "IO_CreateDir os PosixIO d w = PosixIO_CreateDir os d w"
| "IO_CreateDir os (IOWrapper t) d w = IO_CreateDir os t d w"
| "IO_CreateDir os (PosixLibcBufferedIOWrapper t) d w = IO_CreateDir os t d w"

fun IO_GetTestDirectory :: "'w os \<Rightarrow> IO \<Rightarrow> 'w \<Rightarrow> status_abs \<times> byte list \<times> 'w" where
  "IO_GetTestDirectory os PosixIO w = PosixIO_GetTestDirectory os w"
| "IO_GetTestDirectory os (IOWrapper t) w = IO_GetTestDirectory os t w"
| "IO_GetTestDirectory os (PosixLibcBufferedIOWrapper t) w = IO_GetTestDirectory os t w"

section \<open>Stacks of wrappers\<close>

text \<open>Does the stack of wrappers make buffered files?\<close>

fun makes_buffered :: "IO \<Rightarrow> bool" where
  "makes_buffered PosixIO = False"
| "makes_buffered (IOWrapper t) = makes_buffered t"
| "makes_buffered (PosixLibcBufferedIOWrapper t) = True"

lemma IO_NewWritableFile_cases:
  "IO_NewWritableFile os io fname w =
     (if makes_buffered io then PosixLibcBufferedIOWrapper_NewWritableFile os fname w
      else PosixIO_NewWritableFile os fname w)"
  by (induction io) simp_all

lemma IO_CreateDir_eq: "IO_CreateDir os io d w = PosixIO_CreateDir os d w"
  by (induction io) simp_all

lemma IO_GetTestDirectory_eq: "IO_GetTestDirectory os io w = PosixIO_GetTestDirectory os w"
  by (induction io) simp_all

end
