(* ===== verification/C2_File.thy ===== *)
theory C2_File
  imports C2_IO
begin

text \<open>
  What a client of \<open>IO\<close> may rely on. \<open>os_laws\<close> states what POSIX documents of the calls that the
  code makes; \<open>writable_file\<close> is the interface of a file opened for writing, and both kinds of
  file satisfy it.
\<close>

section \<open>What the operating system promises\<close>

text \<open>
  How a state of the world is read: the contents of the file of a name, what of it is on the
  storage device and would survive a crash, the name a descriptor or a \<open>FILE\<close> is open for writing on, and the
  bytes that a \<open>FILE\<close> holds back.
\<close>

record 'w fsview =
  content :: "byte list \<Rightarrow> 'w \<Rightarrow> byte list"
  durable :: "byte list \<Rightarrow> 'w \<Rightarrow> byte list"
  fd_path :: "int \<Rightarrow> 'w \<Rightarrow> byte list option"
  file_path :: "nat \<Rightarrow> 'w \<Rightarrow> byte list option"
  pending :: "nat \<Rightarrow> 'w \<Rightarrow> byte list"

text \<open>
  \<open>open\<close> keeps the contents unless the flags have \<open>O_TRUNC\<close>, and mode \<open>w\<close> of \<open>fopen\<close> empties the file;
  \<open>write\<close> appends the first bytes of the buffer, as many as it returns, or none; \<open>fdatasync\<close> changes
  no contents, and once it succeeds those of the file of its descriptor are on the device; the C
  library appends everything when it reports success, somewhere between the file and its buffer;
  \<open>fflush\<close> and \<open>fclose\<close> empty the buffer when they succeed, \<open>fflush\<close> of a null pointer those of all
  open streams; \<open>fileno\<close> is a descriptor of the same file. Nothing is promised of a call of the C
  library that fails, and nothing but \<open>fdatasync\<close> promises that anything is on the device.
\<close>

definition open_law :: "'w os \<Rightarrow> 'w fsview \<Rightarrow> bool" where
  "open_law os v \<longleftrightarrow>
    (\<forall>p flags mode w fd w'. os_open os p flags mode w = (fd, w') \<and> fd \<noteq> - 1 \<and> flags AND 3 = O_WRONLY \<longrightarrow>
     fd_path v fd w' = Some p \<and>
     content v p w' = (if flags AND O_TRUNC = O_TRUNC then [] else content v p w))"

definition write_law :: "'w os \<Rightarrow> 'w fsview \<Rightarrow> bool" where
  "write_law os v \<longleftrightarrow>
    (\<forall>fd p bs w n w'. fd_path v fd w = Some p \<and> os_write os fd bs w = (n, w') \<longrightarrow>
     fd_path v fd w' = Some p \<and> - 1 \<le> n \<and> n \<le> int (length bs) \<and>
     content v p w' = content v p w @ take (nat n) bs)"

definition fdatasync_law :: "'w os \<Rightarrow> 'w fsview \<Rightarrow> bool" where
  "fdatasync_law os v \<longleftrightarrow>
    (\<forall>fd w r w'. os_fdatasync os fd w = (r, w') \<longrightarrow>
     (\<forall>p. content v p w' = content v p w) \<and> (\<forall>g. fd_path v g w' = fd_path v g w) \<and>
     (\<forall>h. file_path v h w' = file_path v h w \<and> pending v h w' = pending v h w) \<and>
     (\<forall>p. r = 0 \<and> fd_path v fd w = Some p \<longrightarrow> durable v p w' = content v p w))"

definition close_law :: "'w os \<Rightarrow> 'w fsview \<Rightarrow> bool" where
  "close_law os v \<longleftrightarrow>
    (\<forall>fd p w r w'. fd_path v fd w = Some p \<and> os_close os fd w = (r, w') \<longrightarrow>
     content v p w' = content v p w)"

definition fopen_law :: "'w os \<Rightarrow> 'w fsview \<Rightarrow> bool" where
  "fopen_law os v \<longleftrightarrow>
    (\<forall>p mode w h w'. os_fopen os p mode w = (Some h, w') \<and> mode = chars ''w'' \<longrightarrow>
     file_path v h w' = Some p \<and> content v p w' = [] \<and> pending v h w' = [])"

definition fwrite_law :: "'w os \<Rightarrow> 'w fsview \<Rightarrow> bool" where
  "fwrite_law os v \<longleftrightarrow>
    (\<forall>h p bs w n w'. file_path v h w = Some p \<and> os_fwrite os h bs w = (n, w') \<longrightarrow>
     file_path v h w' = Some p \<and>
     (n = length bs \<longrightarrow> content v p w' @ pending v h w' = content v p w @ pending v h w @ bs))"

definition fflush_law :: "'w os \<Rightarrow> 'w fsview \<Rightarrow> bool" where
  "fflush_law os v \<longleftrightarrow>
    (\<forall>h p w r w'. file_path v h w = Some p \<and> os_fflush os (Some h) w = (r, w') \<longrightarrow>
     file_path v h w' = Some p \<and>
     (r = 0 \<longrightarrow> content v p w' = content v p w @ pending v h w \<and> pending v h w' = []))"

definition fflush_all_law :: "'w os \<Rightarrow> 'w fsview \<Rightarrow> bool" where
  "fflush_all_law os v \<longleftrightarrow>
    (\<forall>h p w w'. file_path v h w = Some p \<and> os_fflush os None w = (0, w') \<longrightarrow>
     file_path v h w' = Some p \<and> pending v h w' = [])"

definition fileno_law :: "'w os \<Rightarrow> 'w fsview \<Rightarrow> bool" where
  "fileno_law os v \<longleftrightarrow>
    (\<forall>h p w. file_path v h w = Some p \<longrightarrow> fd_path v (os_fileno os h w) w = Some p)"

definition fclose_law :: "'w os \<Rightarrow> 'w fsview \<Rightarrow> bool" where
  "fclose_law os v \<longleftrightarrow>
    (\<forall>h p w w'. file_path v h w = Some p \<and> os_fclose os h w = (0, w') \<longrightarrow>
     content v p w' = content v p w @ pending v h w)"

definition os_laws :: "'w os \<Rightarrow> 'w fsview \<Rightarrow> bool" where
  "os_laws os v \<longleftrightarrow>
     open_law os v \<and> write_law os v \<and> fdatasync_law os v \<and> close_law os v \<and>
     fopen_law os v \<and> fwrite_law os v \<and> fflush_law os v \<and> fflush_all_law os v \<and>
     fileno_law os v \<and> fclose_law os v"

lemma os_open_law:
  assumes "os_laws os v"
  shows "os_open os p (O_WRONLY OR O_CREAT OR O_TRUNC) mode w = (fd, w') \<Longrightarrow> fd \<noteq> - 1 \<Longrightarrow>
      fd_path v fd w' = Some p \<and> content v p w' = []"
proof -
  have flags: "(O_WRONLY OR O_CREAT OR O_TRUNC) AND 3 = O_WRONLY"
    "(O_WRONLY OR O_CREAT OR O_TRUNC) AND O_TRUNC = O_TRUNC"
    by (simp_all add: O_WRONLY_def O_CREAT_def O_TRUNC_def)
  assume "os_open os p (O_WRONLY OR O_CREAT OR O_TRUNC) mode w = (fd, w')" "fd \<noteq> - 1"
  with assms flags show ?thesis unfolding os_laws_def open_law_def by metis
qed

lemma os_write_law:
  assumes "os_laws os v"
  shows "fd_path v fd w = Some p \<Longrightarrow> os_write os fd bs w = (n, w') \<Longrightarrow>
      fd_path v fd w' = Some p \<and> - 1 \<le> n \<and> n \<le> int (length bs) \<and>
      content v p w' = content v p w @ take (nat n) bs"
  using assms unfolding os_laws_def write_law_def by blast

lemma os_fdatasync_law:
  assumes "os_laws os v"
  shows "os_fdatasync os fd w = (r, w') \<Longrightarrow>
      content v p w' = content v p w \<and> fd_path v g w' = fd_path v g w \<and>
      file_path v h w' = file_path v h w \<and> pending v h w' = pending v h w"
    and "os_fdatasync os fd w = (0, w') \<Longrightarrow> fd_path v fd w = Some p \<Longrightarrow> durable v p w' = content v p w"
  using assms unfolding os_laws_def fdatasync_law_def by blast+

lemma os_close_law:
  assumes "os_laws os v"
  shows "fd_path v fd w = Some p \<Longrightarrow> os_close os fd w = (r, w') \<Longrightarrow>
      content v p w' = content v p w"
  using assms unfolding os_laws_def close_law_def by blast

lemma os_fopen_law:
  assumes "os_laws os v"
  shows "os_fopen os p (chars ''w'') w = (Some h, w') \<Longrightarrow>
      file_path v h w' = Some p \<and> content v p w' = [] \<and> pending v h w' = []"
  using assms unfolding os_laws_def fopen_law_def by blast

lemma os_fwrite_law:
  assumes "os_laws os v"
  shows "file_path v h w = Some p \<Longrightarrow> os_fwrite os h bs w = (k, w') \<Longrightarrow>
      file_path v h w' = Some p \<and>
      (k = length bs \<longrightarrow> content v p w' @ pending v h w' = content v p w @ pending v h w @ bs)"
  using assms unfolding os_laws_def fwrite_law_def by blast

lemma os_fflush_law:
  assumes "os_laws os v"
  shows "file_path v h w = Some p \<Longrightarrow> os_fflush os (Some h) w = (r, w') \<Longrightarrow>
      file_path v h w' = Some p \<and>
      (r = 0 \<longrightarrow> content v p w' = content v p w @ pending v h w \<and> pending v h w' = [])"
    and "file_path v h w = Some p \<Longrightarrow> os_fflush os None w = (0, w') \<Longrightarrow> pending v h w' = []"
  using assms unfolding os_laws_def fflush_law_def fflush_all_law_def by blast+

lemma os_fileno_law:
  assumes "os_laws os v"
  shows "file_path v h w = Some p \<Longrightarrow> fd_path v (os_fileno os h w) w = Some p"
  using assms unfolding os_laws_def fileno_law_def by blast

lemma os_fclose_law:
  assumes "os_laws os v"
  shows "file_path v h w = Some p \<Longrightarrow> os_fclose os h w = (0, w') \<Longrightarrow>
      content v p w' = content v p w @ pending v h w"
  using assms unfolding os_laws_def fclose_law_def by blast

section \<open>The interface of a file\<close>

text \<open>
  \<open>logical f w\<close> is what the file has accepted, \<open>stored f w\<close> what the operating system holds of it, and
  \<open>synced f w\<close> what is on the device.
  No call on an open file faults; a call that returns OK has done what it promises.
\<close>

locale writable_file =
  fixes append :: "'f \<Rightarrow> byte list \<Rightarrow> 'w \<Rightarrow> (status_abs \<times> 'w) option"
    and flush :: "'f \<Rightarrow> 'w \<Rightarrow> (status_abs \<times> 'w) option"
    and sync :: "'f \<Rightarrow> 'w \<Rightarrow> (status_abs \<times> 'w) option"
    and close :: "'f \<Rightarrow> 'w \<Rightarrow> (status_abs \<times> 'f \<times> 'w) option"
    and opened :: "'f \<Rightarrow> 'w \<Rightarrow> bool"
    and logical :: "'f \<Rightarrow> 'w \<Rightarrow> byte list"
    and stored :: "'f \<Rightarrow> 'w \<Rightarrow> byte list"
    and synced :: "'f \<Rightarrow> 'w \<Rightarrow> byte list"
  assumes append: "opened f w \<Longrightarrow> \<exists>st w'. append f data w = Some (st, w') \<and> opened f w' \<and>
      (st = SOk \<longrightarrow> logical f w' = logical f w @ data)"
    and flush: "opened f w \<Longrightarrow> \<exists>st w'. flush f w = Some (st, w') \<and> opened f w' \<and>
      (st = SOk \<longrightarrow> logical f w' = logical f w \<and> stored f w' = logical f w)"
    and sync: "opened f w \<Longrightarrow> \<exists>st w'. sync f w = Some (st, w') \<and> opened f w' \<and>
      (st = SOk \<longrightarrow> logical f w' = logical f w \<and> stored f w' = logical f w \<and> synced f w' = logical f w)"
    and close: "opened f w \<Longrightarrow> \<exists>st f' w'. close f w = Some (st, f', w') \<and>
      (st = SOk \<longrightarrow> stored f w' = logical f w)"

text \<open>A client that appends fragments until one fails.\<close>

fun append_all :: "('f \<Rightarrow> byte list \<Rightarrow> 'w \<Rightarrow> (status_abs \<times> 'w) option) \<Rightarrow> 'f \<Rightarrow> byte list list \<Rightarrow> 'w \<Rightarrow>
    (status_abs \<times> 'w) option" where
  "append_all app f [] w = Some (SOk, w)"
| "append_all app f (d # ds) w =
     do { (st, w) \<leftarrow> app f d w;
          if st = SOk then append_all app f ds w else Some (st, w) }"

context writable_file
begin

lemma append_all_logical:
  "opened f w \<Longrightarrow> \<exists>st w'. append_all append f ds w = Some (st, w') \<and> opened f w' \<and>
     (st = SOk \<longrightarrow> logical f w' = logical f w @ concat ds)"
proof (induction ds arbitrary: w)
  case Nil
  then show ?case by simp
next
  case (Cons d ds)
  obtain st w1 where 1: "append f d w = Some (st, w1)" "opened f w1"
      "st = SOk \<Longrightarrow> logical f w1 = logical f w @ d"
    using append [OF Cons.prems] by blast
  show ?case
  proof (cases "st = SOk")
    case True
    with Cons.IH [OF 1(2)] 1 show ?thesis by auto
  qed (use 1 in simp)
qed

lemma append_all_sync_synced:
  assumes "opened f w" "append_all append f ds w = Some (SOk, w1)" "sync f w1 = Some (SOk, w2)"
  shows "opened f w2 \<and> logical f w2 = logical f w @ concat ds \<and> stored f w2 = logical f w @ concat ds \<and>
    synced f w2 = logical f w @ concat ds"
proof -
  have "opened f w1" "logical f w1 = logical f w @ concat ds"
    using append_all_logical [OF assms(1), of ds] assms(2) by auto
  with sync [of f w1] assms(3) show ?thesis by auto
qed

lemma append_all_close_stored:
  assumes "opened f w" "append_all append f ds w = Some (SOk, w1)" "close f w1 = Some (SOk, f', w')"
  shows "stored f w' = logical f w @ concat ds"
proof -
  have "opened f w1" "logical f w1 = logical f w @ concat ds"
    using append_all_logical [OF assms(1), of ds] assms(2) by auto
  with close [of f w1] assms(3) show ?thesis by auto
qed

end

section \<open>Both files satisfy the interface\<close>

fun file_opened :: "'w os \<Rightarrow> 'w fsview \<Rightarrow> WritableFile \<Rightarrow> 'w \<Rightarrow> bool" where
  "file_opened os v (Unbuffered f) w = (os_laws os v \<and> fd_path v (pw_fd f) w = Some (pw_filename f))"
| "file_opened os v (Buffered f) w =
     (os_laws os v \<and> (\<exists>h. pb_file f = Some h \<and> file_path v h w = Some (pb_filename f)))"

fun file_stored :: "'w fsview \<Rightarrow> WritableFile \<Rightarrow> 'w \<Rightarrow> byte list" where
  "file_stored v (Unbuffered f) w = content v (pw_filename f) w"
| "file_stored v (Buffered f) w = content v (pb_filename f) w"

fun file_synced :: "'w fsview \<Rightarrow> WritableFile \<Rightarrow> 'w \<Rightarrow> byte list" where
  "file_synced v (Unbuffered f) w = durable v (pw_filename f) w"
| "file_synced v (Buffered f) w = durable v (pb_filename f) w"

fun file_logical :: "'w fsview \<Rightarrow> WritableFile \<Rightarrow> 'w \<Rightarrow> byte list" where
  "file_logical v (Unbuffered f) w = content v (pw_filename f) w"
| "file_logical v (Buffered f) w =
     content v (pb_filename f) w @ (case pb_file f of None \<Rightarrow> [] | Some h \<Rightarrow> pending v h w)"

lemma Unbuffered_Append:
  assumes "file_opened os v (Unbuffered f) w" "PosixWritableFile_Append os f data w = (st, w')"
  shows "file_opened os v (Unbuffered f) w' \<and>
    (st = SOk \<longrightarrow> content v (pw_filename f) w' = content v (pw_filename f) w @ data)"
proof (cases "data = []")
  case True
  with assms show ?thesis by (auto simp: PosixWritableFile_Append_def)
next
  case False
  obtain n w1 where wr: "os_write os (pw_fd f) data w = (n, w1)" by fastforce
  with assms False os_write_law [of os v "pw_fd f" w "pw_filename f" data n w1] show ?thesis
    by (auto simp: PosixWritableFile_Append_def split: if_splits)
qed

lemma WritableFile_Flush_ok:
  assumes op: "file_opened os v f w"
  shows "\<exists>st w'. WritableFile_Flush os f w = Some (st, w') \<and> file_opened os v f w' \<and>
      (st = SOk \<longrightarrow> file_logical v f w' = file_logical v f w \<and> file_stored v f w' = file_logical v f w)"
proof (cases f)
  case (Unbuffered u)
  with op show ?thesis by (simp add: PosixWritableFile_Flush_def)
next
  case (Buffered b)
  with op obtain h where h: "os_laws os v" "pb_file b = Some h" "file_path v h w = Some (pb_filename b)"
    by auto
  obtain r w1 where "os_fflush os (Some h) w = (r, w1)" by fastforce
  with Buffered h os_fflush_law(1) [OF h(1,3) this] show ?thesis
    by (auto simp: PosixBufferedWritableFile_Flush_def)
qed

lemma WritableFile_Sync_ok:
  assumes op: "file_opened os v f w"
  shows "\<exists>st w'. WritableFile_Sync os f w = Some (st, w') \<and> file_opened os v f w' \<and>
      (st = SOk \<longrightarrow> file_logical v f w' = file_logical v f w \<and> file_stored v f w' = file_logical v f w \<and>
         file_synced v f w' = file_logical v f w)"
proof (cases f)
  case (Unbuffered u)
  obtain r w1 where r: "os_fdatasync os (pw_fd u) w = (r, w1)" by fastforce
  have os: "os_laws os v" "fd_path v (pw_fd u) w = Some (pw_filename u)" using op Unbuffered by simp_all
  have "r = 0 \<longrightarrow> durable v (pw_filename u) w1 = content v (pw_filename u) w"
    using os_fdatasync_law(2) [OF os(1) _ os(2)] r by blast
  with op Unbuffered r os_fdatasync_law(1) [OF os(1) r, of "pw_filename u" "pw_fd u"] show ?thesis
    by (auto simp: PosixWritableFile_Sync_def)
next
  case (Buffered b)
  with op obtain h where h: "os_laws os v" "pb_file b = Some h" by auto
  obtain st w1 where fl: "PosixBufferedWritableFile_Flush os b w = Some (st, w1)"
      "file_opened os v f w1"
      "st = SOk \<Longrightarrow> file_logical v f w1 = file_logical v f w \<and> file_stored v f w1 = file_logical v f w"
    using WritableFile_Flush_ok [OF op] Buffered by auto
  show ?thesis
  proof (cases "st = SOk")
    case True
    obtain r w2 where r: "os_fdatasync os (os_fileno os h w1) w1 = (r, w2)" by fastforce
    have "file_path v h w1 = Some (pb_filename b)" using fl(2) Buffered h by simp
    from os_fdatasync_law(2) [OF h(1) _ os_fileno_law [OF h(1) this]] r
    have "r = 0 \<longrightarrow> durable v (pb_filename b) w2 = content v (pb_filename b) w1" by blast
    with os_fdatasync_law(1) [OF h(1) r, where p = "pb_filename b" and h = h] True Buffered h fl r
    show ?thesis by (auto simp: PosixBufferedWritableFile_Sync_def)
  next
    case False
    with Buffered fl show ?thesis by (simp add: PosixBufferedWritableFile_Sync_def)
  qed
qed

interpretation posix_file: writable_file "WritableFile_Append os" "WritableFile_Flush os"
  "WritableFile_Sync os" "WritableFile_Close os" "file_opened os v" "file_logical v" "file_stored v"
  "file_synced v"
  for os v
proof
  fix f data w
  assume op: "file_opened os v f w"
  show "\<exists>st w'. WritableFile_Append os f data w = Some (st, w') \<and> file_opened os v f w' \<and>
      (st = SOk \<longrightarrow> file_logical v f w' = file_logical v f w @ data)"
  proof (cases f)
    case (Unbuffered u)
    with Unbuffered_Append [of os v u w data] op show ?thesis
      by (cases "PosixWritableFile_Append os u data w") auto
  next
    case (Buffered b)
    with op obtain h where h: "os_laws os v" "pb_file b = Some h" "file_path v h w = Some (pb_filename b)"
      by auto
    obtain n w1 where "os_fwrite os h data w = (n, w1)" by fastforce
    with Buffered h os_fwrite_law [OF h(1,3) this] show ?thesis
      by (auto simp: PosixBufferedWritableFile_Append_def)
  qed
next
  fix f w
  assume op: "file_opened os v f w"
  then show "\<exists>st w'. WritableFile_Flush os f w = Some (st, w') \<and> file_opened os v f w' \<and>
      (st = SOk \<longrightarrow> file_logical v f w' = file_logical v f w \<and> file_stored v f w' = file_logical v f w)"
    by (rule WritableFile_Flush_ok)
next
  fix f w
  assume op: "file_opened os v f w"
  then show "\<exists>st w'. WritableFile_Sync os f w = Some (st, w') \<and> file_opened os v f w' \<and>
      (st = SOk \<longrightarrow> file_logical v f w' = file_logical v f w \<and> file_stored v f w' = file_logical v f w \<and>
         file_synced v f w' = file_logical v f w)"
    by (rule WritableFile_Sync_ok)
next
  fix f w
  assume op: "file_opened os v f w"
  show "\<exists>st f' w'. WritableFile_Close os f w = Some (st, f', w') \<and>
      (st = SOk \<longrightarrow> file_stored v f w' = file_logical v f w)"
  proof (cases f)
    case (Unbuffered u)
    obtain r w1 where "os_close os (pw_fd u) w = (r, w1)" by fastforce
    with Unbuffered op os_close_law [of os v "pw_fd u" w "pw_filename u" r w1] show ?thesis
      by (auto simp: PosixWritableFile_Close_def)
  next
    case (Buffered b)
    with op obtain h where h: "os_laws os v" "pb_file b = Some h" "file_path v h w = Some (pb_filename b)"
      by auto
    obtain r w1 where "os_fclose os h w = (r, w1)" by fastforce
    with Buffered h os_fclose_law [OF h(1,3), of w1] show ?thesis
      by (auto simp: PosixBufferedWritableFile_Close_def)
  qed
qed

section \<open>Short writes\<close>

lemma Append_part:
  assumes "file_opened os v (Unbuffered f) w" "PosixWritableFile_Append os f data w = (st, w')"
  shows "\<exists>k \<le> length data.
    content v (pw_filename f) w' = content v (pw_filename f) w @ take k data \<and>
    (st = SOk \<longleftrightarrow> k = length data) \<and>
    (st \<noteq> SOk \<longrightarrow> st = PosixError os (pw_filename f) (os_errno os w'))"
proof (cases "data = []")
  case True
  with assms(2) show ?thesis by (simp add: PosixWritableFile_Append_def)
next
  case False
  obtain n w1 where wr: "os_write os (pw_fd f) data w = (n, w1)" by fastforce
  have law: "- 1 \<le> n" "n \<le> int (length data)"
    "content v (pw_filename f) w1 = content v (pw_filename f) w @ take (nat n) data"
    using os_write_law [OF _ _ wr] assms(1) by auto
  then have "nat n \<le> length data" "n = int (length data) \<longleftrightarrow> nat n = length data"
    using False by (auto simp: nat_eq_iff)
  with False wr law(3) assms(2) show ?thesis
    by (intro exI [of _ "nat n"]) (auto simp: PosixWritableFile_Append_def split: if_splits)
qed

section \<open>A client\<close>

text \<open>
  Creates a file, appends fragments until one fails, closes the file if none did, and destroys the
  object in any case.
\<close>

definition write_file :: "'w os \<Rightarrow> IO \<Rightarrow> byte list \<Rightarrow> byte list list \<Rightarrow> 'w \<Rightarrow> (status_abs \<times> 'w) option" where
  "write_file os io fname frags w =
     (case IO_NewWritableFile os io fname w of
        (st, None, w) \<Rightarrow> Some (st, w)
      | (st, Some f, w) \<Rightarrow>
          do { (st, w) \<leftarrow> append_all (WritableFile_Append os) f frags w;
               if st \<noteq> SOk then Some (st, WritableFile_delete os f w)
               else do { (st, f, w) \<leftarrow> WritableFile_Close os f w;
                         Some (st, WritableFile_delete os f w) } })"

lemma NewWritableFile_opened:
  assumes "os_laws os v" "IO_NewWritableFile os io fname w = (st, Some f, w')"
  shows "st = SOk \<and> file_opened os v f w' \<and> file_logical v f w' = [] \<and>
    (\<forall>u. file_stored v f u = content v fname u)"
proof (cases "makes_buffered io")
  case False
  obtain fd w1 where o: "os_open os fname (O_WRONLY OR O_CREAT OR O_TRUNC) 420 w = (fd, w1)" by fastforce
  with assms False os_open_law [OF assms(1) o] show ?thesis
    by (auto simp: IO_NewWritableFile_cases PosixIO_NewWritableFile_def PosixWritableFile_new_def split: if_splits)
next
  case True
  obtain h w1 where o: "os_fopen os fname (chars ''w'') w = (h, w1)" by fastforce
  with assms True os_fopen_law [OF assms(1), of fname w _ w1] show ?thesis
    by (cases h) (auto simp: IO_NewWritableFile_cases PosixLibcBufferedIOWrapper_NewWritableFile_def
        PosixBufferedWritableFile_new_def)
qed

lemma NewWritableFile_None:
  "IO_NewWritableFile os io fname w = (st, None, w') \<Longrightarrow> st = PosixError os fname (os_errno os w')"
  by (cases "makes_buffered io") (auto simp: IO_NewWritableFile_cases PosixIO_NewWritableFile_def PosixLibcBufferedIOWrapper_NewWritableFile_def
      split: prod.splits option.splits if_splits)

text \<open>After \<open>Close\<close> the destructor has nothing left to close.\<close>

lemma Close_result:
  assumes "WritableFile_Close os f w = Some (st, f', w')"
  shows "case f' of Unbuffered x \<Rightarrow> pw_fd x = - 1 \<and> st = SOk | Buffered b \<Rightarrow> pb_file b = None"
proof (cases f)
  case (Unbuffered f)
  with assms show ?thesis by (auto simp: PosixWritableFile_Close_def split: prod.splits)
next
  case (Buffered b)
  with assms obtain h where "pb_file b = Some h"
    by (auto simp: PosixBufferedWritableFile_Close_def bind_Some_iff)
  moreover obtain r w1 where "os_fclose os h w = (r, w1)" by fastforce
  ultimately show ?thesis using assms Buffered
    by (auto simp: PosixBufferedWritableFile_Close_def)
qed

lemma delete_after_Close:
  "WritableFile_Close os f w = Some (st, f', w') \<Longrightarrow> WritableFile_delete os f' u = u"
  using Close_result [of os f w st f' w']
  by (cases f') (simp_all add: PosixWritableFile_delete_def PosixBufferedWritableFile_delete_def)

lemma write_file_ok:
  assumes "os_laws os v"
  shows "\<exists>st w'. write_file os io fname frags w = Some (st, w') \<and>
    (st = SOk \<longrightarrow> content v fname w' = concat frags)"
proof -
  obtain st r w0 where new: "IO_NewWritableFile os io fname w = (st, r, w0)"
    by (cases "IO_NewWritableFile os io fname w") auto
  show ?thesis
  proof (cases r)
    case None
    with NewWritableFile_None [of os io fname w st w0] new show ?thesis by (simp add: write_file_def)
  next
    case (Some f)
    with new NewWritableFile_opened [OF assms, of io fname w st f w0]
    have f: "file_opened os v f w0" "file_logical v f w0 = []" "\<And>u. file_stored v f u = content v fname u"
      by simp_all
    obtain st1 w1 where app: "append_all (WritableFile_Append os) f frags w0 = Some (st1, w1)"
        "file_opened os v f w1"
      using posix_file.append_all_logical [OF f(1)] by blast
    obtain st2 f2 w2 where cl: "WritableFile_Close os f w1 = Some (st2, f2, w2)"
      using posix_file.close [OF app(2)] by blast
    show ?thesis
    proof (cases "st1 = SOk")
      case True
      with posix_file.append_all_close_stored [OF f(1), of frags w1 f2 w2] app cl f(2,3)
      have "st2 = SOk \<longrightarrow> content v fname w2 = concat frags" by simp
      with True new Some app(1) cl delete_after_Close [OF cl] show ?thesis
        by (simp add: write_file_def)
    next
      case False
      with new Some app(1) show ?thesis by (simp add: write_file_def)
    qed
  qed
qed

lemma write_file_content:
  "os_laws os v \<Longrightarrow> write_file os io fname frags w = Some (SOk, w') \<Longrightarrow> content v fname w' = concat frags"
  using write_file_ok [of os v io fname frags w] by auto

section \<open>A file system in memory\<close>

text \<open>
  An instance of the laws, for the concrete cases below: a disk with \<open>m_space\<close> bytes left, on which
  a \<open>write\<close> may be short and a flush fail; the empty name cannot be opened. A \<open>FILE\<close> is a descriptor
  and a buffer, and \<open>m_disk\<close> is what \<open>fdatasync\<close> has brought to the device.
\<close>

record memfs =
  m_files :: "byte list \<Rightarrow> byte list"
  m_disk :: "byte list \<Rightarrow> byte list"
  m_fd :: "int \<Rightarrow> byte list option"
  m_buf :: "nat \<Rightarrow> byte list"
  m_space :: nat
  m_errno :: int
  m_next :: nat
  m_env :: "byte list \<Rightarrow> byte list option"

definition mem_empty :: "nat \<Rightarrow> int \<Rightarrow> memfs" where
  "mem_empty space err = \<lparr>m_files = (\<lambda>p. []), m_disk = (\<lambda>p. []), m_fd = Map.empty, m_buf = (\<lambda>h. []),
     m_space = space, m_errno = err, m_next = 3, m_env = Map.empty\<rparr>"

definition mem_open :: "byte list \<Rightarrow> bool \<Rightarrow> memfs \<Rightarrow> memfs" where
  "mem_open p trunc w =
     w\<lparr>m_files := (if trunc then (m_files w)(p := []) else m_files w),
       m_fd := (m_fd w)(int (m_next w) \<mapsto> p), m_buf := (m_buf w)(m_next w := []), m_next := m_next w + 1\<rparr>"

definition mem_write :: "int \<Rightarrow> byte list \<Rightarrow> memfs \<Rightarrow> int \<times> memfs" where
  "mem_write fd bs w =
     (case m_fd w fd of
        None \<Rightarrow> (- 1, w\<lparr>m_errno := 9\<rparr>)
      | Some p \<Rightarrow>
          let n = min (m_space w) (length bs) in
          if n = 0 \<and> bs \<noteq> [] then (- 1, w\<lparr>m_errno := 28\<rparr>)
          else (int n, w\<lparr>m_files := (m_files w)(p := m_files w p @ take n bs),
                         m_space := m_space w - n\<rparr>))"

definition mem_fdatasync :: "int \<Rightarrow> memfs \<Rightarrow> int \<times> memfs" where
  "mem_fdatasync fd w =
     (case m_fd w fd of
        None \<Rightarrow> (- 1, w\<lparr>m_errno := 9\<rparr>)
      | Some p \<Rightarrow> (0, w\<lparr>m_disk := (m_disk w)(p := m_files w p)\<rparr>))"

definition mem_file :: "nat \<Rightarrow> memfs \<Rightarrow> byte list option" where
  "mem_file h w = (if h < m_next w then m_fd w (int h) else None)"

definition mem_fflush :: "nat \<Rightarrow> memfs \<Rightarrow> int \<times> memfs" where
  "mem_fflush h w =
     (case mem_file h w of
        None \<Rightarrow> (- 1, w\<lparr>m_errno := 9\<rparr>)
      | Some p \<Rightarrow>
          if length (m_buf w h) \<le> m_space w
          then (0, w\<lparr>m_files := (m_files w)(p := m_files w p @ m_buf w h),
                     m_buf := (m_buf w)(h := []), m_space := m_space w - length (m_buf w h)\<rparr>)
          else (- 1, w\<lparr>m_errno := 28\<rparr>))"

definition mem_fflush_all :: "memfs \<Rightarrow> int \<times> memfs" where
  "mem_fflush_all w =
     (let bufs = (\<lambda>p. concat (map (m_buf w) (filter (\<lambda>h. m_fd w (int h) = Some p) [0..<m_next w])));
          total = sum_list (map (\<lambda>h. length (m_buf w h)) [0..<m_next w])
      in if total \<le> m_space w
         then (0, w\<lparr>m_files := (\<lambda>p. m_files w p @ bufs p),
                    m_buf := (\<lambda>h. if h < m_next w then [] else m_buf w h), m_space := m_space w - total\<rparr>)
         else (- 1, w\<lparr>m_errno := 28\<rparr>))"

definition mem_os :: "memfs os" where
  "mem_os =
    \<lparr>os_open = (\<lambda>p flags mode w. if p = [] then (- 1, w\<lparr>m_errno := ENOENT\<rparr>)
       else (int (m_next w), mem_open p (flags AND O_TRUNC = O_TRUNC) w)),
     os_write = mem_write,
     os_fdatasync = mem_fdatasync,
     os_close = (\<lambda>fd w. (0, w\<lparr>m_fd := (m_fd w)(fd := None)\<rparr>)),
     os_mkdir = (\<lambda>p mode w. (- 1, w\<lparr>m_errno := EEXIST\<rparr>)),
     os_fopen = (\<lambda>p mode w. if p = [] then (None, w\<lparr>m_errno := ENOENT\<rparr>)
       else if mode = chars ''w'' then (Some (m_next w), mem_open p True w)
       else (None, w\<lparr>m_errno := 22\<rparr>)),
     os_fwrite = (\<lambda>h bs w. (length bs, w\<lparr>m_buf := (m_buf w)(h := m_buf w h @ bs)\<rparr>)),
     os_fflush = (\<lambda>h w. case h of None \<Rightarrow> mem_fflush_all w | Some h \<Rightarrow> mem_fflush h w),
     os_fclose = (\<lambda>h w. let (r, w) = mem_fflush h w in (r, w\<lparr>m_fd := (m_fd w)(int h := None)\<rparr>)),
     os_fileno = (\<lambda>h w. int h),
     os_errno = m_errno,
     os_getenv = (\<lambda>x w. m_env w x),
     os_geteuid = (\<lambda>w. 1000),
     os_strerror = (\<lambda>e. chars ''error'')\<rparr>"

definition mem_view :: "memfs fsview" where
  "mem_view = \<lparr>content = (\<lambda>p w. m_files w p), durable = (\<lambda>p w. m_disk w p), fd_path = (\<lambda>fd w. m_fd w fd),
     file_path = mem_file, pending = (\<lambda>h w. m_buf w h)\<rparr>"

lemmas mem_defs = mem_os_def mem_view_def mem_open_def mem_write_def mem_fdatasync_def mem_file_def
  mem_fflush_def mem_fflush_all_def

lemma mem_os_laws: "os_laws mem_os mem_view"
proof -
  have "open_law mem_os mem_view" "write_law mem_os mem_view" "fdatasync_law mem_os mem_view"
    "close_law mem_os mem_view"
    by (auto simp: mem_defs open_law_def write_law_def fdatasync_law_def close_law_def Let_def
        split: if_splits option.splits)
  moreover have "fopen_law mem_os mem_view" "fwrite_law mem_os mem_view" "fflush_law mem_os mem_view"
    "fflush_all_law mem_os mem_view" "fileno_law mem_os mem_view" "fclose_law mem_os mem_view"
    by (auto simp: mem_defs fopen_law_def fwrite_law_def fflush_law_def fflush_all_law_def fileno_law_def
        fclose_law_def Let_def split: if_splits option.splits)
  ultimately show ?thesis by (simp add: os_laws_def)
qed

lemma test_dir_not_truncated:
  "snprintf 100 (chars ''/tmp/c2-test-'' @ dec_int (sint (w :: u32))) =
     chars ''/tmp/c2-test-'' @ dec_int (sint w)"
  using length_dec_int [of w] by (simp add: snprintf_def chars_def)

section \<open>Properties\<close>

text \<open>
  C5: whichever \<open>IO\<close> is used, a client that creates a file, appends fragments and closes it never
  meets undefined behaviour, and when every call of it returned OK the operating system holds
  exactly the fragments, in order, under that name.
\<close>

theorem io_write_file_exact:
  assumes "os_laws os v"
  shows "\<exists>st w'. write_file os io fname frags w = Some (st, w') \<and>
    (st = SOk \<longrightarrow> content v fname w' = concat frags)"
  using assms by (rule write_file_ok)

theorem io_write_file_exact_witness:
  "\<exists>w. write_file mem_os (PosixLibcBufferedIOWrapper PosixIO) [97] [[1, 2], [3]] (mem_empty 9 0) = Some (SOk, w) \<and>
    content mem_view [97] w = [1, 2, 3]"
proof -
  obtain w where "write_file mem_os (PosixLibcBufferedIOWrapper PosixIO) [97] [[1, 2], [3]] (mem_empty 9 0) = Some (SOk, w)"
    by (simp add: write_file_def PosixLibcBufferedIOWrapper_NewWritableFile_def mem_os_def mem_empty_def
        PosixBufferedWritableFile_new_def PosixBufferedWritableFile_Append_def
        PosixBufferedWritableFile_Close_def mem_fflush_def mem_file_def mem_open_def)
  with io_write_file_exact [OF mem_os_laws, of "PosixLibcBufferedIOWrapper PosixIO" "[97]" "[[1, 2], [3]]" "mem_empty 9 0"]
  show ?thesis by auto
qed

text \<open>
  C24: a \<open>Sync\<close> that returns OK after appends that did leaves all that was accepted so far on the
  storage device, and with the operating system, for either kind of file; the file stays open.
\<close>

theorem file_sync_stores:
  assumes "file_opened os v f w" "append_all (WritableFile_Append os) f frags w = Some (SOk, w1)"
    and "WritableFile_Sync os f w1 = Some (SOk, w2)"
  shows "file_synced v f w2 = file_logical v f w @ concat frags \<and>
    file_stored v f w2 = file_logical v f w @ concat frags \<and>
    file_logical v f w2 = file_logical v f w @ concat frags \<and> file_opened os v f w2"
  using posix_file.append_all_sync_synced [OF assms] by simp

theorem file_sync_stores_witness:
  "\<exists>w. WritableFile_Sync mem_os (Buffered \<lparr>pb_filename = [97], pb_file = Some 5\<rparr>)
       ((mem_empty 9 0)\<lparr>m_fd := [5 \<mapsto> [97]], m_next := 6, m_buf := (\<lambda>h. [])(5 := [4, 2])\<rparr>) = Some (SOk, w) \<and>
     durable mem_view [97] w = [4, 2] \<and> content mem_view [97] w = [4, 2]"
proof -
  let ?f = "Buffered \<lparr>pb_filename = [97], pb_file = Some 5\<rparr>"
  let ?w = "(mem_empty 9 0)\<lparr>m_fd := [5 \<mapsto> [97]], m_next := 6\<rparr>"
  let ?w1 = "(mem_empty 9 0)\<lparr>m_fd := [5 \<mapsto> [97]], m_next := 6, m_buf := (\<lambda>h. [])(5 := [4, 2])\<rparr>"
  have op: "file_opened mem_os mem_view ?f ?w" using mem_os_laws by (simp add: mem_view_def mem_file_def)
  have app: "append_all (WritableFile_Append mem_os) ?f [[4], [2]] ?w = Some (SOk, ?w1)"
    by (simp add: PosixBufferedWritableFile_Append_def mem_os_def mem_empty_def fun_eq_iff)
  obtain w where sync: "WritableFile_Sync mem_os ?f ?w1 = Some (SOk, w)"
    by (simp add: PosixBufferedWritableFile_Sync_def PosixBufferedWritableFile_Flush_def mem_os_def
        mem_empty_def mem_fflush_def mem_fdatasync_def mem_file_def)
  from file_sync_stores [OF op app sync] sync show ?thesis by (simp add: mem_view_def mem_empty_def)
qed

text \<open>
  C26: what an unbuffered \<open>Append\<close> reports is exact: the file has grown by the first \<open>k\<close> bytes of the
  data, and the status is OK when that is all of it and no sooner. A short write is reported with
  the \<open>errno\<close> that the system has at that moment, which a short write does not set: the code of the
  status may be that of an older, unrelated failure.
\<close>

theorem append_reports_short_writes:
  assumes "file_opened os v (Unbuffered f) w" "PosixWritableFile_Append os f data w = (st, w')"
  shows "\<exists>k \<le> length data.
    content v (pw_filename f) w' = content v (pw_filename f) w @ take k data \<and>
    (st = SOk \<longleftrightarrow> k = length data) \<and>
    (st \<noteq> SOk \<longrightarrow> st = PosixError os (pw_filename f) (os_errno os w'))"
  using assms by (rule Append_part)

theorem append_reports_short_writes_witness:
  "\<exists>w'. PosixWritableFile_Append mem_os \<lparr>pw_filename = [97], pw_fd = 3\<rparr> [1, 2, 3]
       ((mem_empty 2 ENOENT)\<lparr>m_fd := [3 \<mapsto> [97]]\<rparr>) = (err_status kNotFound [97] [], w') \<and>
     content mem_view [97] w' = [1, 2]"
proof -
  let ?f = "\<lparr>pw_filename = [97], pw_fd = 3\<rparr>" and ?w = "(mem_empty 2 ENOENT)\<lparr>m_fd := [3 \<mapsto> [97]]\<rparr>"
  have op: "file_opened mem_os mem_view (Unbuffered ?f) ?w"
    using mem_os_laws by (simp add: mem_view_def)
  obtain w' where app: "PosixWritableFile_Append mem_os ?f [1, 2, 3] ?w = (err_status kNotFound [97] [], w')"
      "m_files w' [97] = [1, 2]"
    by (simp add: PosixWritableFile_Append_def mem_os_def mem_write_def mem_empty_def PosixError_def
        EEXIST_def ENOENT_def EACCES_def)
  from append_reports_short_writes [OF op app(1)] app show ?thesis by (auto simp: mem_view_def)
qed

text \<open>
  C38: \<open>Close\<close> closes once: the destructor that follows it makes no further system call. After it a
  buffered file holds a null pointer: a second \<open>Close\<close> and \<open>Append\<close> are undefined behaviour; \<open>Flush\<close> is
  not, it flushes every other open stream of the process and reports on that; \<open>Sync\<close> returns the
  error of that flush, and is undefined behaviour when there is none. An unbuffered file holds the
  descriptor \<open>-1\<close>; its \<open>Close\<close> has reported OK whatever the system answered.
\<close>

theorem file_close_once:
  assumes "os_laws os v" "WritableFile_Close os f w = Some (st, f', w')"
  shows "WritableFile_delete os f' u = u \<and>
    (case f' of
       Buffered b \<Rightarrow> WritableFile_Append os f' data u = None \<and> WritableFile_Close os f' u = None \<and>
         (\<exists>st' u'. WritableFile_Flush os f' u = Some (st', u') \<and>
            (st' = SOk \<longrightarrow> (\<forall>h p. file_path v h u = Some p \<longrightarrow> pending v h u' = [])) \<and>
            (st' \<noteq> SOk \<longrightarrow> st' = PosixError os (pb_filename b) (os_errno os u')) \<and>
            WritableFile_Sync os f' u = (if st' = SOk then None else Some (st', u')))
     | Unbuffered x \<Rightarrow> pw_fd x = - 1 \<and> st = SOk)"
proof (cases f')
  case (Buffered b)
  then have b: "pb_file b = None" using Close_result [OF assms(2)] by simp
  obtain r u' where r: "os_fflush os None u = (r, u')" by fastforce
  have "r = 0 \<longrightarrow> (\<forall>h p. file_path v h u = Some p \<longrightarrow> pending v h u' = [])"
    using os_fflush_law(2) [OF assms(1)] r by blast
  with b r Buffered delete_after_Close [OF assms(2)] show ?thesis
    by (auto simp: PosixBufferedWritableFile_Append_def PosixBufferedWritableFile_Flush_def
      PosixBufferedWritableFile_Sync_def PosixBufferedWritableFile_Close_def)
qed (use Close_result [OF assms(2)] delete_after_Close [OF assms(2)] in simp)

theorem file_close_once_witness:
  "\<exists>f' w'. WritableFile_Close mem_os (Buffered \<lparr>pb_filename = [97], pb_file = Some 5\<rparr>)
       ((mem_empty 9 0)\<lparr>m_fd := [4 \<mapsto> [98], 5 \<mapsto> [97]], m_next := 6, m_buf := (\<lambda>h. [])(4 := [7])\<rparr>) =
         Some (SOk, f', w') \<and>
     WritableFile_Close mem_os f' w' = None \<and>
     (\<exists>w''. WritableFile_Flush mem_os f' w' = Some (SOk, w'') \<and> pending mem_view 4 w'' = [])"
proof -
  let ?w = "(mem_empty 9 0)\<lparr>m_fd := [4 \<mapsto> [98], 5 \<mapsto> [97]], m_next := 6, m_buf := (\<lambda>h. [])(4 := [7])\<rparr>"
  let ?f = "Buffered \<lparr>pb_filename = [97], pb_file = None\<rparr>"
  define w' where "w' = ?w\<lparr>m_files := (\<lambda>p. [])([97] := []), m_buf := (\<lambda>h. [])(4 := [7], 5 := []),
      m_fd := [4 \<mapsto> [98], 5 \<mapsto> [97]](5 := None)\<rparr>"
  have cl: "WritableFile_Close mem_os (Buffered \<lparr>pb_filename = [97], pb_file = Some 5\<rparr>) ?w = Some (SOk, ?f, w')"
    by (simp add: w'_def PosixBufferedWritableFile_Close_def mem_os_def mem_fflush_def mem_file_def mem_empty_def)
  have w': "m_next w' = 6" "m_buf w' = (\<lambda>h. [])(4 := [7], 5 := [])" "m_space w' = 9" "m_fd w' 4 = Some [98]"
    by (simp_all add: w'_def mem_empty_def)
  have "mem_fflush_all w' = (0, snd (mem_fflush_all w'))"
    using w' by (simp add: mem_fflush_all_def Let_def upt_rec)
  then obtain w'' where fl: "WritableFile_Flush mem_os ?f w' = Some (SOk, w'')"
    by (cases "mem_fflush_all w'") (simp add: PosixBufferedWritableFile_Flush_def mem_os_def)
  have "file_path mem_view 4 w' = Some [98]" using w' by (simp add: mem_view_def mem_file_def)
  with file_close_once [OF mem_os_laws cl, where u = w'] cl fl show ?thesis by auto
qed

text \<open>
  C29: error results of \<open>NewWritableFile\<close>: the file pointer is null exactly when the status is not OK,
  and \<open>errno\<close> is mapped to a status that carries the name, and for the codes without a class of
  their own the system's message.
\<close>

theorem new_file_status:
  assumes "IO_NewWritableFile os io fname w = (st, r, w')"
  shows "(st = SOk \<longleftrightarrow> r \<noteq> None) \<and>
    (r = None \<longrightarrow>
       (os_errno os w' = 17 \<longrightarrow> st = SErr kAlreadyExists (low32 fname)) \<and>
       (os_errno os w' = 2 \<longrightarrow> st = SErr kNotFound (low32 fname)) \<and>
       (os_errno os w' = 13 \<longrightarrow> st = SErr kAccessDenied (low32 fname)) \<and>
       (os_errno os w' \<notin> {2, 13, 17} \<longrightarrow>
          st = SErr kIOError (status_text fname (os_strerror os (os_errno os w')))))"
proof (cases r)
  case None
  with NewWritableFile_None [of os io fname w st w'] assms show ?thesis
    by (simp add: PosixError_def EEXIST_def ENOENT_def EACCES_def err_status_def status_text_def low32_def)
next
  case (Some f)
  with assms show ?thesis
    by (cases "makes_buffered io") (auto simp: IO_NewWritableFile_cases PosixIO_NewWritableFile_def PosixLibcBufferedIOWrapper_NewWritableFile_def
        split: prod.splits option.splits if_splits)
qed

theorem new_file_status_witness:
  "\<exists>w'. IO_NewWritableFile mem_os PosixIO [] (mem_empty 9 0) = (SErr kNotFound [], None, w')"
proof -
  obtain st w' where new: "IO_NewWritableFile mem_os PosixIO [] (mem_empty 9 0) = (st, None, w')"
      "os_errno mem_os w' = 2"
    by (simp add: PosixIO_NewWritableFile_def mem_os_def mem_empty_def ENOENT_def)
  from new_file_status [OF new(1)] new show ?thesis by (simp add: low32_def)
qed

text \<open>
  C40: \<open>GetTestDirectory\<close> takes the first of \<open>C2_TEST_TMPDIR\<close> and \<open>TEST_TMPDIR\<close> that is set and not
  empty, else \<open>/tmp/c2-test-\<close> and the user's number, which fits the buffer of 100 characters for
  every user, so that the name is not cut; it makes that directory, one that is there already is no error, and any
  other failure is returned with the name and its \<open>errno\<close>. Through any stack of wrappers it is the same.
\<close>

theorem get_test_directory:
  "IO_GetTestDirectory os io w =
    (let e1 = os_getenv os (chars ''C2_TEST_TMPDIR'') w;
         e2 = os_getenv os (chars ''TEST_TMPDIR'') w;
         dir = (if e1 \<noteq> None \<and> e1 \<noteq> Some [] then the e1
                else if e2 \<noteq> None \<and> e2 \<noteq> Some [] then the e2
                else chars ''/tmp/c2-test-'' @ dec_int (sint (os_geteuid os w)));
         (r, w') = os_mkdir os dir 493 w
     in (if r = 0 \<or> os_errno os w' = 17 then SOk else PosixError os dir (os_errno os w'), dir, w'))"
proof -
  have already: "is_AlreadyExists (PosixError os d e) \<longleftrightarrow> e = 17" "\<not> is_AlreadyExists SOk" for d e
    by (simp_all add: is_AlreadyExists_def PosixError_def err_status_def EEXIST_def ENOENT_def EACCES_def)
  let ?e1 = "os_getenv os (chars ''C2_TEST_TMPDIR'') w" and ?e2 = "os_getenv os (chars ''TEST_TMPDIR'') w"
  define env where "env = (if unset_or_empty ?e1 then ?e2 else ?e1)"
  define dir where "dir = (if unset_or_empty env
      then chars ''/tmp/c2-test-'' @ dec_int (sint (os_geteuid os w)) else the env)"
  have dir: "(if ?e1 \<noteq> None \<and> ?e1 \<noteq> Some [] then the ?e1
      else if ?e2 \<noteq> None \<and> ?e2 \<noteq> Some [] then the ?e2
      else chars ''/tmp/c2-test-'' @ dec_int (sint (os_geteuid os w))) = dir"
    by (cases ?e1) (simp_all add: dir_def env_def unset_or_empty_def)
  have run: "PosixIO_GetTestDirectory os w =
      (let (status, w) = PosixIO_CreateDir os dir w
       in (if is_AlreadyExists status then SOk else status, dir, w))"
    by (simp only: PosixIO_GetTestDirectory_def Let_def test_dir_not_truncated dir_def env_def)
  obtain r w' where mk: "os_mkdir os dir 493 w = (r, w')" by fastforce
  show ?thesis
    unfolding IO_GetTestDirectory_eq run Let_def dir
    by (simp add: PosixIO_CreateDir_def mk already)
qed

end
