(* ===== verification/C2_Records.thy ===== *)
theory C2_Records
  imports C2_File C2_LengthPrefix
begin

text \<open>
  Length-prefixed records in a file: what the coding routines, a \<open>WritableFile\<close> and an \<open>IO\<close> give
  together. A client writes each record with \<open>PutLengthPrefixedSlice\<close> and appends it; a reader
  walks over the contents with \<open>GetLengthPrefixedSlice\<close>. The lemmas follow the contents when
  the disk fills up in the middle of a record, and the reader into the torn end.
\<close>

section \<open>A torn record\<close>

text \<open>A part of a record is refused, wherever it is cut.\<close>

lemma GetLengthPrefixedSlice_torn:
  assumes s: "slice_bytes m s = Some (take k (prefixed bs))" and k: "k < length (prefixed bs)"
    and bs: "length bs < 2 ^ 32"
  shows "\<exists>s' v. GetLengthPrefixedSlice pf m s v0 = Some (False, s', v)"
proof -
  let ?pre = "varint_bytes (length bs)"
  have p: "prefixed bs = ?pre @ bs" using bs by (simp add: prefixed_def)
  show ?thesis
  proof (cases "k < length ?pre")
    case True
    then have "take k (prefixed bs) = take k ?pre" by (simp add: p)
    with read_varint_truncated [of 5 k "length bs"] True
    have "read_varint 5 (take k (prefixed bs)) = None" by auto
    from GetLengthPrefixedSlice_no_length [OF s this, of pf v0] show ?thesis by blast
  next
    case False
    then have t: "take k (prefixed bs) = ?pre @ take (k - length ?pre) bs" by (simp add: p)
    have "length ?pre \<le> 5" using bs by (intro length_varint_bytes_le) simp_all
    then have "read_varint 5 (take k (prefixed bs)) = Some (length bs, length ?pre)"
      unfolding t by (rule read_varint_bytes)
    moreover have "length (take k (prefixed bs)) - length ?pre < length bs mod 2 ^ 32"
      using k False bs by (simp add: p)
    ultimately show ?thesis using GetLengthPrefixedSlice_short [OF s, of "length bs" "length ?pre" pf v0]
      by blast
  qed
qed

lemma get_all_more:
  "get_all get v0 m s n = Some (vs, s') \<Longrightarrow> length vs = n \<Longrightarrow> get m s' v0 = Some (False, t, x) \<Longrightarrow> n < n' \<Longrightarrow>
     get_all get v0 m s n' = Some (vs, t)"
proof (induction n arbitrary: s vs n')
  case 0
  then show ?case by (cases n') simp_all
next
  case (Suc n)
  then obtain N where N: "n' = Suc N" "n < N" by (cases n') auto
  from Suc.prems obtain s1 v ws where "get m s v0 = Some (True, s1, v)"
      "get_all get v0 m s1 n = Some (ws, s')" "vs = v # ws"
    by (auto simp: bind_Some_iff split: if_splits)
  with Suc.IH [of s1 ws N] Suc.prems N show ?case by simp
qed

text \<open>
  A reader of the records \<open>as\<close> and of a part of the next one finds \<open>as\<close>, however many it asks for.
\<close>

lemma get_all_torn:
  assumes s: "slice_bytes m s = Some (concat (map prefixed as) @ take k (prefixed bs))"
    and k: "k < length (prefixed bs)" and len: "\<forall>a \<in> set (bs # as). length a < 2 ^ 32" and n: "length as < n"
  shows "\<exists>vs s'. get_all (GetLengthPrefixedSlice pf) v0 m s n = Some (vs, s') \<and>
    list_all2 (\<lambda>v a. slice_bytes m v = Some a) vs as"
proof -
  have valid: "list_all (\<lambda>a. length a < 2 ^ 32) as" using len by (simp add: list_all_iff)
  obtain vs s1 where get: "get_all (GetLengthPrefixedSlice pf) v0 m s (length as) = Some (vs, s1)"
      "list_all2 (\<lambda>v a. slice_bytes m v = Some a) vs as" "slice_bytes m s1 = Some (take k (prefixed bs))"
    using length_prefixed.get_all_enc [OF s valid] by blast
  obtain t x where "GetLengthPrefixedSlice pf m s1 v0 = Some (False, t, x)"
    using GetLengthPrefixedSlice_torn [OF get(3) k] len by fastforce
  with get_all_more [OF get(1) _ _ n] get(2) list_all2_lengthD [OF get(2)] show ?thesis by blast
qed

section \<open>A file that fills up\<close>

text \<open>
  An unbuffered file after a sequence of appends that stopped: whole fragments, then a part of the
  one that failed.
\<close>

lemma Unbuffered_Append_part:
  assumes "file_opened os v (Unbuffered f) w" "WritableFile_Append os (Unbuffered f) data w = Some (st, w')"
  shows "\<exists>k \<le> length data. content v (pw_filename f) w' = content v (pw_filename f) w @ take k data \<and>
    (st = SOk \<longleftrightarrow> k = length data)"
  using Append_part [OF assms(1), of data st w'] assms(2) by auto

lemma Unbuffered_append_all_part:
  assumes "file_opened os v (Unbuffered f) w" "append_all (WritableFile_Append os) (Unbuffered f) frags w = Some (st, w')"
  shows "if st = SOk then content v (pw_filename f) w' = content v (pw_filename f) w @ concat frags
    else \<exists>i k. i < length frags \<and> k < length (frags ! i) \<and>
      content v (pw_filename f) w' = content v (pw_filename f) w @ concat (take i frags) @ take k (frags ! i)"
  using assms
proof (induction frags arbitrary: w)
  case Nil
  then show ?case by simp
next
  case (Cons d ds)
  obtain st1 w1 where app: "WritableFile_Append os (Unbuffered f) d w = Some (st1, w1)"
      "file_opened os v (Unbuffered f) w1"
    using posix_file.append [OF Cons.prems(1)] by blast
  obtain k where k: "k \<le> length d" "content v (pw_filename f) w1 = content v (pw_filename f) w @ take k d"
      "st1 = SOk \<longleftrightarrow> k = length d"
    using Unbuffered_Append_part [OF Cons.prems(1) app(1)] by blast
  show ?case
  proof (cases "st1 = SOk")
    case True
    with Cons.prems(2) app(1) have "append_all (WritableFile_Append os) (Unbuffered f) ds w1 = Some (st, w')"
      by simp
    note IH = Cons.IH [OF app(2) this]
    show ?thesis
    proof (cases "st = SOk")
      case False
      with IH obtain i j where "i < length ds" "j < length (ds ! i)"
          "content v (pw_filename f) w' = content v (pw_filename f) w1 @ concat (take i ds) @ take j (ds ! i)"
        by auto
      with False True k show ?thesis
        by (simp, intro exI [of _ "Suc i"] conjI exI [of _ j]) simp_all
    qed (use IH True k in simp)
  next
    case False
    with Cons.prems(2) app(1) have st: "st = st1" "w' = w1" by simp_all
    have "0 < length (d # ds) \<and> k < length ((d # ds) ! 0) \<and> content v (pw_filename f) w1 =
        content v (pw_filename f) w @ concat (take 0 (d # ds)) @ take k ((d # ds) ! 0)"
      using False k by simp
    then show ?thesis unfolding st if_not_P [OF False] by blast
  qed
qed

text \<open>The fragments that a client appends, one for each record.\<close>

lemma put_records:
  assumes "list_all2 (\<lambda>v bs. slice_bytes m v = Some bs) vs strs"
    and "list_all2 (\<lambda>v fr. PutLengthPrefixedSlice m [] v = Some fr) vs frags"
  shows "frags = map prefixed strs"
  using assms
proof (induction vs strs arbitrary: frags rule: list_all2_induct)
  case (Cons v vs s strs)
  then show ?case by (auto simp: list_all2_Cons1 PutLengthPrefixedSlice_appends)
qed simp

end
