(* ===== verification/C2_Singleton.thy ===== *)
theory C2_Singleton
  imports C2_IO
begin

text \<open>
  The two \<open>IO\<close> objects of the process (\<open>c2_io_posix.cc\<close>): made on the first call of
  \<open>IO::GetUnBuffered\<close> or \<open>IO::Default\<close>, under \<open>pthread_once\<close>. Any number of threads may call
  either: the steps of the calls interleave freely, and what every call returns is proved by an
  invariant of the reachable states.
\<close>

section \<open>Globals and operations\<close>

text \<open>
  A pointer to an \<open>IO\<close> is the number of the object, in the order of the calls of \<open>new\<close>, with its
  class; \<open>None\<close> is the null pointer.
\<close>

record io_globals =
  once_done :: bool
  posix_io_buf :: "(nat \<times> IO) option"
  posix_io :: "(nat \<times> IO) option"
  new_count :: nat

definition io_start :: io_globals where
  "io_start = \<lparr>once_done = False, posix_io_buf = None, posix_io = None, new_count = 0\<rparr>"

definition OpenPosixIO :: "io_globals \<Rightarrow> io_globals" where
  "OpenPosixIO g =
     (let base = (new_count g, PosixIO);
          g = g\<lparr>new_count := new_count g + 1\<rparr>;
          g = g\<lparr>posix_io_buf := Some (new_count g, PosixLibcBufferedIOWrapper (snd base)),
                new_count := new_count g + 1\<rparr>
      in g\<lparr>posix_io := Some base\<rparr>)"

text \<open>
  \<open>pthread_once\<close> fails with an error number \<open>err\<close> (which the system chooses; it then does nothing),
  or returns 0: it runs the routine in the first such call only, and is atomic for the other threads.
\<close>

definition pthread_once :: "int \<Rightarrow> io_globals \<Rightarrow> (io_globals \<Rightarrow> io_globals) \<Rightarrow> int \<times> io_globals" where
  "pthread_once err g init =
     (if err \<noteq> 0 then (err, g)
      else if once_done g then (0, g) else (0, (init g)\<lparr>once_done := True\<rparr>))"

text \<open>
  An error of a thread function aborts the process: \<open>Inl\<close> of the line that \<open>stderr\<close> has then.
  \<open>strerror\<close> is the system's.
\<close>

definition PthreadCall :: "(int \<Rightarrow> byte list) \<Rightarrow> byte list \<Rightarrow> int \<Rightarrow> byte list + unit" where
  "PthreadCall strerror label result =
     (if result \<noteq> 0
      then Inl (chars ''Error performing '' @ label @ chars '': '' @ strerror result @ [10])
      else Inr ())"

definition PosixGetBaseImplementation :: "(int \<Rightarrow> byte list) \<Rightarrow> int \<Rightarrow> io_globals \<Rightarrow>
    byte list + ((nat \<times> IO) option \<times> io_globals)" where
  "PosixGetBaseImplementation strerror err g =
     (let (r, g) = pthread_once err g OpenPosixIO
      in case PthreadCall strerror (chars ''pthread_once'') r of
           Inl line \<Rightarrow> Inl line
         | Inr _ \<Rightarrow> Inr (posix_io g, g))"

definition PosixGetBuffered :: "(int \<Rightarrow> byte list) \<Rightarrow> int \<Rightarrow> io_globals \<Rightarrow>
    byte list + ((nat \<times> IO) option \<times> io_globals)" where
  "PosixGetBuffered strerror err g =
     (let (r, g) = pthread_once err g OpenPosixIO
      in case PthreadCall strerror (chars ''pthread_once'') r of
           Inl line \<Rightarrow> Inl line
         | Inr _ \<Rightarrow> Inr (posix_io_buf g, g))"

definition IO_GetUnBuffered :: "(int \<Rightarrow> byte list) \<Rightarrow> int \<Rightarrow> io_globals \<Rightarrow>
    byte list + ((nat \<times> IO) option \<times> io_globals)" where
  "IO_GetUnBuffered strerror err g = PosixGetBaseImplementation strerror err g"

definition IO_Default :: "(int \<Rightarrow> byte list) \<Rightarrow> int \<Rightarrow> io_globals \<Rightarrow>
    byte list + ((nat \<times> IO) option \<times> io_globals)" where
  "IO_Default strerror err g = PosixGetBuffered strerror err g"

section \<open>Threads\<close>

datatype io_call = CallUnBuffered | CallDefault

text \<open>
  A call has two steps: \<open>pthread_once\<close>, whose result goes to \<open>PthreadCall\<close>, and the read of the
  global pointer that it returns. A call whose \<open>pthread_once\<close> fails ends the process, so that no
  step follows.
\<close>

datatype io_thread =
    Idle
  | Entered io_call
  | Returned io_call "(nat \<times> IO) option"

fun read_global :: "io_call \<Rightarrow> io_globals \<Rightarrow> (nat \<times> IO) option" where
  "read_global CallUnBuffered g = posix_io g"
| "read_global CallDefault g = posix_io_buf g"

inductive io_step :: "io_globals \<times> (nat \<Rightarrow> io_thread) \<Rightarrow> io_globals \<times> (nat \<Rightarrow> io_thread) \<Rightarrow> bool" where
  enter: "ts t = Idle \<or> ts t = Returned c0 r0 \<Longrightarrow> pthread_once err g OpenPosixIO = (res, g') \<Longrightarrow>
      PthreadCall strerror (chars ''pthread_once'') res = Inr () \<Longrightarrow>
      io_step (g, ts) (g', ts(t := Entered c))"
| leave: "ts t = Entered c \<Longrightarrow> io_step (g, ts) (g, ts(t := Returned c (read_global c g)))"

inductive_cases io_stepE: "io_step (g, ts) s'"

inductive io_reachable :: "io_globals \<times> (nat \<Rightarrow> io_thread) \<Rightarrow> bool" where
  start: "io_reachable (io_start, \<lambda>t. Idle)"
| step: "io_reachable s \<Longrightarrow> io_step s s' \<Longrightarrow> io_reachable s'"

section \<open>The invariant\<close>

fun io_object :: "io_call \<Rightarrow> nat \<times> IO" where
  "io_object CallUnBuffered = (0, PosixIO)"
| "io_object CallDefault = (1, PosixLibcBufferedIOWrapper PosixIO)"

definition io_opened :: io_globals where
  "io_opened = \<lparr>once_done = True, posix_io_buf = Some (io_object CallDefault),
     posix_io = Some (io_object CallUnBuffered), new_count = 2\<rparr>"

fun io_inv :: "io_globals \<times> (nat \<Rightarrow> io_thread) \<Rightarrow> bool" where
  "io_inv (g, ts) \<longleftrightarrow>
     g = io_start \<and> (\<forall>t. ts t = Idle) \<or>
     g = io_opened \<and> (\<forall>t c r. ts t = Returned c r \<longrightarrow> r = Some (io_object c))"

lemma pthread_once_opens:
  "g = io_start \<or> g = io_opened \<Longrightarrow> pthread_once 0 g OpenPosixIO = (0, io_opened)"
  by (auto simp: pthread_once_def OpenPosixIO_def io_start_def io_opened_def Let_def)

lemma read_global_opened [simp]: "read_global c io_opened = Some (io_object c)"
  by (cases c) (simp_all add: io_opened_def)

lemma io_step_inv: "io_step s s' \<Longrightarrow> io_inv s \<Longrightarrow> io_inv s'"
proof (induction rule: io_step.induct)
  case (enter ts t c0 r0 err g res g' strerror c)
  then have "g = io_start \<or> g = io_opened" by auto
  moreover have "err = 0"
    using enter(2,3) by (auto simp: PthreadCall_def pthread_once_def split: if_splits)
  ultimately have "g' = io_opened" using pthread_once_opens [of g] enter(2) by simp
  with enter show ?case by (auto simp: io_start_def io_opened_def)
next
  case (leave ts t c g)
  then have "g = io_opened" by auto
  with leave show ?case by auto
qed

lemma io_reachable_inv: "io_reachable s \<Longrightarrow> io_inv s"
  by (induction rule: io_reachable.induct) (auto intro: io_step_inv)

section \<open>Calls that run alone\<close>

text \<open>
  The steps are the functions: a call that runs alone in any reachable state returns what the
  steps give it, and leaves the globals as they do.
\<close>

lemma io_calls_sequential:
  assumes "io_reachable (g, ts)"
  shows "IO_GetUnBuffered strerror 0 g = Inr (Some (io_object CallUnBuffered), io_opened)"
    and "IO_Default strerror 0 g = Inr (Some (io_object CallDefault), io_opened)"
proof -
  have "io_inv (g, ts)" using assms by (rule io_reachable_inv)
  then have "g = io_start \<or> g = io_opened" by auto
  from pthread_once_opens [OF this]
  show "IO_GetUnBuffered strerror 0 g = Inr (Some (io_object CallUnBuffered), io_opened)"
    "IO_Default strerror 0 g = Inr (Some (io_object CallDefault), io_opened)"
    by (simp_all add: IO_GetUnBuffered_def IO_Default_def PosixGetBaseImplementation_def
        PosixGetBuffered_def PthreadCall_def io_opened_def)
qed

lemma io_calls_sequential_witness:
  "IO_Default strerror 0 io_start = Inr (Some (1, PosixLibcBufferedIOWrapper PosixIO), io_opened)"
  using io_calls_sequential [OF start] by simp

section \<open>Properties\<close>

text \<open>
  C10: in every interleaving of calls by any number of threads, \<open>IO::GetUnBuffered\<close> always returns
  one and the same \<open>PosixIO\<close>, \<open>IO::Default\<close> one and the same wrapper around it, never a null
  pointer, and no more than these two objects are ever made; a call that starts in any such state
  and runs alone returns that same object, unless \<open>pthread_once\<close> fails: then the process prints its
  error and aborts.
\<close>

theorem io_singletons:
  assumes "io_reachable (g, ts)"
  shows "(ts t = Returned c r \<longrightarrow> r = Some (io_object c)) \<and> new_count g \<le> 2 \<and>
    IO_GetUnBuffered strerror err g =
      (if err = 0 then Inr (Some (io_object CallUnBuffered), io_opened)
       else Inl (chars ''Error performing pthread_once: '' @ strerror err @ [10])) \<and>
    IO_Default strerror err g =
      (if err = 0 then Inr (Some (io_object CallDefault), io_opened)
       else Inl (chars ''Error performing pthread_once: '' @ strerror err @ [10]))"
proof -
  have "io_inv (g, ts)" using assms by (rule io_reachable_inv)
  then have "(ts t = Returned c r \<longrightarrow> r = Some (io_object c)) \<and> new_count g \<le> 2"
    by (auto simp: io_start_def io_opened_def)
  moreover have "IO_GetUnBuffered strerror err g = Inl (chars ''Error performing pthread_once: '' @ strerror err @ [10])"
    "IO_Default strerror err g = Inl (chars ''Error performing pthread_once: '' @ strerror err @ [10])"
    if "err \<noteq> 0"
    using that by (simp_all add: IO_GetUnBuffered_def IO_Default_def PosixGetBaseImplementation_def
        PosixGetBuffered_def PthreadCall_def pthread_once_def chars_def)
  ultimately show ?thesis using io_calls_sequential [OF assms, of strerror] by simp
qed

theorem io_singletons_witness:
  "\<exists>g ts. io_reachable (g, ts) \<and> ts 7 = Returned CallDefault (Some (1, PosixLibcBufferedIOWrapper PosixIO)) \<and>
     IO_Default (\<lambda>e. [33]) 22 g = Inl (chars ''Error performing pthread_once: !'' @ [10])"
proof -
  let ?ts = "(\<lambda>t. Idle)(7 := Entered CallDefault, 3 := Entered CallUnBuffered)"
  have once: "pthread_once 0 io_start OpenPosixIO = (0, io_opened)"
    "pthread_once 0 io_opened OpenPosixIO = (0, io_opened)"
    by (simp_all add: pthread_once_opens)
  have call: "PthreadCall (\<lambda>e. [33]) (chars ''pthread_once'') 0 = Inr ()" by (simp add: PthreadCall_def)
  have "io_reachable (io_opened, (\<lambda>t. Idle)(7 := Entered CallDefault))"
    by (rule step [OF start], rule enter [OF _ once(1) call]) simp
  then have "io_reachable (io_opened, ?ts)"
    by (rule step, intro enter [OF _ once(2) call]) simp
  then have r: "io_reachable (io_opened, ?ts(7 := Returned CallDefault (read_global CallDefault io_opened)))"
    by (rule step, intro leave) simp
  note s = io_singletons [OF this, of 7 CallDefault "read_global CallDefault io_opened" "\<lambda>e. [33]" 22]
  have "read_global CallDefault io_opened = Some (1, PosixLibcBufferedIOWrapper PosixIO)"
    "IO_Default (\<lambda>e. [33]) 22 io_opened = Inl (chars ''Error performing pthread_once: !'' @ [10])"
    using s by (simp_all add: chars_def)
  with r show ?thesis by (intro exI conjI) (assumption, simp_all)
qed

end
