(* ===== verification/C2_Float.thy ===== *)
theory C2_Float
  imports C2_Prelude Complex_Main "HOL-Library.Log_Nat"
begin

text \<open>
  The floating-point arithmetic of the code: \<open>double\<close> and \<open>float\<close> as IEEE 754 has them, on the rational
  numbers that they stand for. An operation computes the exact result and rounds it to the
  nearest number of \<open>p\<close> significant bits, ties to even: \<open>p\<close> is 53 for a \<open>double\<close> and 24 for a \<open>float\<close>.
  Every operation is evaluated in the format of its type. Exponents are not bounded; the numbers that the code computes are far from the bounds of either
  format. Rounding is proved to be monotone, exact on representable numbers, and within half a
  unit of the last place.
\<close>

section \<open>Rounding\<close>

text \<open>The exponent of a positive number: \<open>2 powi expo x \<le> x < 2 powi (expo x + 1)\<close>.\<close>

definition expo :: "rat \<Rightarrow> int" where
  "expo x = (let (a, b) = quotient_of x; k = bitlen a - bitlen b
     in if 2 powi k \<le> x then k else k - 1)"

definition round_half_even :: "rat \<Rightarrow> int" where
  "round_half_even q = (let n = \<lfloor>q\<rfloor>; d = q - of_int n in
     if d < 1 / 2 then n else if d > 1 / 2 then n + 1 else if even n then n else n + 1)"

definition fl_pos :: "nat \<Rightarrow> rat \<Rightarrow> rat" where
  "fl_pos p x = (let u = 2 powi (expo x - int p + 1) in of_int (round_half_even (x / u)) * u)"

definition fl :: "nat \<Rightarrow> rat \<Rightarrow> rat" where
  "fl p x = (if x = 0 then 0 else if 0 < x then fl_pos p x else - fl_pos p (- x))"

abbreviation double :: "rat \<Rightarrow> rat" where "double \<equiv> fl 53"
abbreviation float32 :: "rat \<Rightarrow> rat" where "float32 \<equiv> fl 24"

section \<open>Exponents\<close>

lemma powi_pos [simp]: "0 < (2 :: rat) powi k"
  by (simp add: zero_less_power_int)

lemma powi_le_iff [simp]: "(2 :: rat) powi j \<le> 2 powi k \<longleftrightarrow> j \<le> k"
  using power_int_increasing [of j k "2 :: rat"] power_int_strict_increasing [of k j "2 :: rat"]
  by (cases "j \<le> k") auto

lemma powi_less_iff [simp]: "(2 :: rat) powi j < 2 powi k \<longleftrightarrow> j < k"
  using powi_le_iff [of k j] by (simp only: not_le [symmetric])

lemma of_int_powi: "0 \<le> j \<Longrightarrow> (2 :: rat) ^ nat j = 2 powi j"
  by (simp add: power_int_def)

lemma powi_add: "(2 :: rat) powi i * 2 powi j = 2 powi (i + j)"
  by (simp add: power_int_add)

lemma of_int_mult_powi_mono: "m \<le> n \<Longrightarrow> of_int m * (2 :: rat) powi k \<le> of_int n * 2 powi k"
  using powi_pos [of k] by (intro mult_right_mono) (simp_all only: of_int_le_iff less_imp_le)

lemma bitlen_powi: "0 < a \<Longrightarrow> (2 :: rat) powi (bitlen a - 1) \<le> of_int a \<and> of_int a < (2 :: rat) powi bitlen a"
proof -
  assume a: "0 < a"
  then have l: "1 \<le> bitlen a" using bitlen_eq_zero_iff [of a] bitlen_nonneg [of a] by linarith
  have b: "2 ^ nat (bitlen a - 1) \<le> a" "a < 2 ^ nat (bitlen a)" using bitlen_bounds [OF a] by auto
  have "(2 :: rat) powi (bitlen a - 1) = of_int (2 ^ nat (bitlen a - 1))"
    "(2 :: rat) powi bitlen a = of_int (2 ^ nat (bitlen a))"
    using l by (simp_all add: power_int_def)
  with b show ?thesis by (simp only: of_int_le_iff of_int_less_iff)
qed

lemma expo_bounds:
  assumes "0 < x"
  shows "2 powi expo x \<le> x" "x < 2 powi (expo x + 1)"
proof -
  obtain a b where q: "quotient_of x = (a, b)" by fastforce
  have b: "0 < b" using quotient_of_denom_pos [OF q] .
  have x: "x = of_int a / of_int b" using quotient_of_div [OF q] .
  have a: "0 < a" using assms b x by (simp add: zero_less_divide_iff)
  let ?k = "bitlen a - bitlen b"
  have pa: "(2 :: rat) powi (bitlen a - 1) \<le> of_int a" "of_int a < (2 :: rat) powi bitlen a"
    and pb: "(2 :: rat) powi (bitlen b - 1) \<le> of_int b" "of_int b < (2 :: rat) powi bitlen b"
    using bitlen_powi [OF a] bitlen_powi [OF b] by auto
  have "(2 :: rat) powi (?k - 1) * of_int b \<le> 2 powi (?k - 1) * 2 powi bitlen b"
    using pb by (intro mult_left_mono) auto
  also have "\<dots> = 2 powi (bitlen a - 1)" by (simp flip: power_int_add)
  also have "\<dots> \<le> of_int a" by (rule pa)
  finally have low: "2 powi (?k - 1) \<le> x" using b by (simp add: x field_simps)
  have "of_int a < (2 :: rat) powi (?k + 1) * 2 powi (bitlen b - 1)"
    using pa by (simp flip: power_int_add)
  also have "\<dots> \<le> 2 powi (?k + 1) * of_int b"
    using pb by (intro mult_left_mono) auto
  finally have high: "x < 2 powi (?k + 1)" using b by (simp add: x field_simps)
  show "2 powi expo x \<le> x" "x < 2 powi (expo x + 1)"
    using low high by (auto simp: expo_def q Let_def)
qed

lemma expo_unique: "2 powi k \<le> x \<Longrightarrow> x < 2 powi (k + 1) \<Longrightarrow> expo x = k"
proof -
  assume x: "2 powi k \<le> x" "x < 2 powi (k + 1)"
  then have pos: "0 < x" using powi_pos [of k] by linarith
  have "(2 :: rat) powi expo x < 2 powi (k + 1)" "(2 :: rat) powi k < 2 powi (expo x + 1)"
    using expo_bounds [OF pos] x by linarith+
  then show ?thesis by simp
qed

lemma expo_mono: "0 < x \<Longrightarrow> x \<le> y \<Longrightarrow> expo x \<le> expo y"
proof -
  assume "0 < x" "x \<le> y"
  then have "(2 :: rat) powi expo x < 2 powi (expo y + 1)"
    using expo_bounds(1) [of x] expo_bounds(2) [of y] by linarith
  then show ?thesis by simp
qed

section \<open>Properties of rounding\<close>

lemma round_half_even_of_int [simp]: "round_half_even (of_int n) = n"
  by (simp add: round_half_even_def)

lemma round_half_even_error: "\<bar>of_int (round_half_even q) - q\<bar> \<le> 1 / 2"
proof -
  have "of_int \<lfloor>q\<rfloor> \<le> q" "q < of_int \<lfloor>q\<rfloor> + 1" by (rule of_int_floor_le, rule floor_less_cancel) simp
  then show ?thesis unfolding round_half_even_def Let_def abs_le_iff
    by (simp split: if_split) linarith
qed

lemma round_half_even_mono: "q \<le> r \<Longrightarrow> round_half_even q \<le> round_half_even r"
proof -
  assume le: "q \<le> r"
  then consider "\<lfloor>q\<rfloor> = \<lfloor>r\<rfloor>" | "\<lfloor>q\<rfloor> + 1 \<le> \<lfloor>r\<rfloor>" using floor_mono [OF le] by linarith
  then show ?thesis
  proof cases
    case 1
    with le show ?thesis by (auto simp: round_half_even_def Let_def)
  next
    case 2
    then have "round_half_even q \<le> \<lfloor>r\<rfloor>" by (auto simp: round_half_even_def Let_def)
    also have "\<dots> \<le> round_half_even r" by (auto simp: round_half_even_def Let_def)
    finally show ?thesis .
  qed
qed

lemma fl_0 [simp]: "fl p 0 = 0"
  by (simp add: fl_def)

lemma fl_minus: "fl p (- x) = - fl p x"
  by (simp add: fl_def)

text \<open>A multiple of the unit is not rounded.\<close>

lemma fl_pos_multiple:
  "x = of_int m * 2 powi (expo x - int p + 1) \<Longrightarrow> fl_pos p x = x"
proof -
  let ?u = "(2 :: rat) powi (expo x - int p + 1)"
  assume x: "x = of_int m * ?u"
  have "x / ?u = of_int m" by (subst (1) x) simp
  then show ?thesis using x by (simp add: fl_pos_def Let_def)
qed

lemma fl_pos_exact:
  assumes "0 < x" "x = of_int n * 2 powi k" "n \<le> 2 ^ p" "0 < p"
  shows "fl_pos p x = x"
proof (cases "expo x - int p + 1 \<le> k")
  case True
  then have "x = of_int (n * 2 ^ nat (k - (expo x - int p + 1))) * 2 powi (expo x - int p + 1)"
    using assms(2) by (simp add: of_int_powi mult.assoc powi_add)
  then show ?thesis by (rule fl_pos_multiple)
next
  case False
  have "2 powi expo x \<le> of_int n * (2 :: rat) powi k" using expo_bounds(1) [OF assms(1)] assms(2) by simp
  also have "\<dots> \<le> of_int (2 ^ p) * 2 powi k"
    using assms(3) by (rule of_int_mult_powi_mono)
  also have "\<dots> = 2 powi (int p + k)" by (simp add: power_int_add)
  finally have "expo x \<le> int p + k" by simp
  with False have e: "expo x = int p + k" by simp
  have "x \<le> of_int (2 ^ p) * 2 powi k"
    unfolding assms(2) using assms(3) by (rule of_int_mult_powi_mono)
  also have "of_int (2 ^ p) * 2 powi k = (2 :: rat) powi expo x" by (simp add: e power_int_add)
  finally have "x = 2 powi expo x" using expo_bounds(1) [OF assms(1)] by simp
  also have "\<dots> = of_int (2 ^ (p - 1)) * 2 powi (expo x - int p + 1)"
    using assms(4) of_int_powi [of "int p - 1"] by (simp add: powi_add nat_diff_distrib)
  finally show ?thesis by (rule fl_pos_multiple)
qed

lemma fl_exact:
  assumes "x = of_int n * 2 powi k" "\<bar>n\<bar> \<le> 2 ^ p" "0 < p"
  shows "fl p x = x"
proof (cases x "0 :: rat" rule: linorder_cases)
  case less
  then have "fl_pos p (- x) = - x" using assms by (intro fl_pos_exact [of _ "- n" k]) auto
  with less show ?thesis by (simp add: fl_def)
next
  case greater
  with assms fl_pos_exact [of x n k p] show ?thesis by (auto simp: fl_def)
qed simp

lemma fl_of_int: "\<bar>n\<bar> \<le> 2 ^ p \<Longrightarrow> 0 < p \<Longrightarrow> fl p (of_int n) = of_int n"
  by (rule fl_exact [where k = 0]) simp_all

text \<open>The result of a positive number is between the powers of two around it.\<close>

lemma fl_pos_range:
  assumes "0 < x" "0 < p"
  shows "2 powi expo x \<le> fl_pos p x" "fl_pos p x \<le> 2 powi (expo x + 1)"
proof -
  let ?u = "(2 :: rat) powi (expo x - int p + 1)"
  have "2 powi expo x = of_int (2 ^ (p - 1)) * ?u"
    using assms(2) of_int_powi [of "int p - 1"] by (simp add: powi_add nat_diff_distrib)
  then have "of_int (2 ^ (p - 1)) \<le> x / ?u"
    using expo_bounds(1) [OF assms(1)] by (simp add: pos_le_divide_eq)
  then have "2 ^ (p - 1) \<le> round_half_even (x / ?u)"
    using round_half_even_mono [of "of_int (2 ^ (p - 1))" "x / ?u"] by (simp only: round_half_even_of_int)
  then have "of_int (2 ^ (p - 1)) * ?u \<le> fl_pos p x"
    unfolding fl_pos_def Let_def by (rule of_int_mult_powi_mono)
  then show "2 powi expo x \<le> fl_pos p x" by (simp only: \<open>2 powi expo x = _\<close>)
  have "2 powi (expo x + 1) = of_int (2 ^ p) * ?u"
    using powi_add [of "int p" "expo x - int p + 1"] by simp
  then have "x / ?u \<le> of_int (2 ^ p)"
    using expo_bounds(2) [OF assms(1)] by (simp add: pos_divide_le_eq)
  then have "round_half_even (x / ?u) \<le> 2 ^ p"
    using round_half_even_mono [of "x / ?u" "of_int (2 ^ p)"] by (simp only: round_half_even_of_int)
  then have "fl_pos p x \<le> of_int (2 ^ p) * ?u"
    unfolding fl_pos_def Let_def by (rule of_int_mult_powi_mono)
  then show "fl_pos p x \<le> 2 powi (expo x + 1)" by (simp only: \<open>2 powi (expo x + 1) = _\<close>)
qed

lemma fl_pos_mono:
  assumes "0 < x" "x \<le> y" "0 < p"
  shows "fl_pos p x \<le> fl_pos p y"
proof (cases "expo x = expo y")
  case True
  with assms(2) show ?thesis unfolding fl_pos_def Let_def
    by (auto intro!: mult_right_mono round_half_even_mono divide_right_mono)
next
  case False
  have "fl_pos p x \<le> 2 powi (expo x + 1)" using assms by (intro fl_pos_range)
  also have "\<dots> \<le> 2 powi expo y" using expo_mono [OF assms(1,2)] False by simp
  also have "\<dots> \<le> fl_pos p y" using assms by (intro fl_pos_range) auto
  finally show ?thesis .
qed

lemma fl_pos_nonneg: "0 < x \<Longrightarrow> 0 < p \<Longrightarrow> 0 < fl_pos p x"
  using fl_pos_range(1) [of x p] powi_pos [of "expo x"] by linarith

lemma fl_mono:
  assumes "x \<le> y" "0 < p"
  shows "fl p x \<le> fl p y"
proof (cases "0 < x \<or> y < 0")
  case True
  with assms fl_pos_mono [of x y p] fl_pos_mono [of "- y" "- x" p] show ?thesis by (auto simp: fl_def)
next
  case False
  with assms fl_pos_nonneg [of y p] fl_pos_nonneg [of "- x" p] show ?thesis by (auto simp: fl_def)
qed

text \<open>A representable bound of the exact result bounds the rounded one.\<close>

lemma fl_le: "x \<le> y \<Longrightarrow> fl p y = y \<Longrightarrow> 0 < p \<Longrightarrow> fl p x \<le> y"
  using fl_mono [of x y p] by simp

lemma le_fl: "y \<le> x \<Longrightarrow> fl p y = y \<Longrightarrow> 0 < p \<Longrightarrow> y \<le> fl p x"
  using fl_mono [of y x p] by simp

lemma fl_pos_error: "\<bar>fl_pos p x - x\<bar> \<le> 2 powi (expo x - int p)"
proof -
  let ?u = "(2 :: rat) powi (expo x - int p + 1)"
  have "fl_pos p x - x = (of_int (round_half_even (x / ?u)) - x / ?u) * ?u"
    by (simp add: fl_pos_def Let_def left_diff_distrib)
  then have "\<bar>fl_pos p x - x\<bar> = \<bar>of_int (round_half_even (x / ?u)) - x / ?u\<bar> * ?u"
    by (simp add: abs_mult)
  also have "\<dots> \<le> 1 / 2 * ?u" using round_half_even_error by (intro mult_right_mono) auto
  also have "\<dots> = 2 powi (expo x - int p)" by (simp add: power_int_add)
  finally show ?thesis .
qed

lemma fl_error:
  assumes "\<bar>x\<bar> < 2 powi (k + 1)"
  shows "\<bar>fl p x - x\<bar> \<le> 2 powi (k - int p)"
proof -
  have pos: "\<bar>fl_pos p y - y\<bar> \<le> 2 powi (k - int p)" if "0 < y" "y < 2 powi (k + 1)" for y
  proof -
    have "(2 :: rat) powi expo y < 2 powi (k + 1)" using expo_bounds(1) [OF that(1)] that(2) by linarith
    then have "expo y \<le> k" by simp
    then have "(2 :: rat) powi (expo y - int p) \<le> 2 powi (k - int p)" by simp
    with fl_pos_error [of p y] show ?thesis by linarith
  qed
  show ?thesis
    using pos [of x] pos [of "- x"] assms by (cases x "0 :: rat" rule: linorder_cases) (auto simp: fl_def)
qed

text \<open>A result has at most \<open>p\<close> bits: rounding it again, to as many or more, does nothing.\<close>

lemma fl_pos_bits: "0 < x \<Longrightarrow> 0 < p \<Longrightarrow> \<exists>n k. fl_pos p x = of_int n * 2 powi k \<and> \<bar>n\<bar> \<le> 2 ^ p"
proof -
  assume x: "0 < x" "0 < p"
  let ?k = "expo x - int p + 1" and ?n = "round_half_even (x / 2 powi (expo x - int p + 1))"
  have eq: "fl_pos p x = of_int ?n * 2 powi ?k" by (simp add: fl_pos_def Let_def)
  have "of_int ?n * (2 :: rat) powi ?k \<le> of_int (2 ^ p) * 2 powi ?k"
    using fl_pos_range(2) [OF x] powi_add [of "int p" ?k] unfolding eq by simp
  then have "?n \<le> 2 ^ p" by (simp only: mult_le_cancel_right_pos [OF powi_pos] of_int_le_iff)
  moreover have "0 \<le> ?n"
    using round_half_even_mono [of "of_int 0" "x / 2 powi ?k"] x(1) unfolding round_half_even_of_int by simp
  ultimately show ?thesis using eq by (intro exI [of _ ?n] exI [of _ ?k]) simp
qed

lemma fl_fl:
  assumes "0 < p" "p \<le> q"
  shows "fl q (fl p x) = fl p x"
proof -
  have "\<exists>n k. fl p x = of_int n * 2 powi k \<and> \<bar>n\<bar> \<le> 2 ^ p"
  proof (cases x "0 :: rat" rule: linorder_cases)
    case less
    then obtain n k where "fl_pos p (- x) = of_int n * 2 powi k" "\<bar>n\<bar> \<le> 2 ^ p"
      using fl_pos_bits [of "- x" p] assms(1) by auto
    with less show ?thesis by (intro exI [of _ "- n"] exI [of _ k]) (simp add: fl_def)
  next
    case equal
    then show ?thesis by (intro exI [of _ 0]) simp
  next
    case greater
    with fl_pos_bits [of x p] assms(1) show ?thesis by (simp add: fl_def)
  qed
  then obtain n k where n: "fl p x = of_int n * 2 powi k" "\<bar>n\<bar> \<le> 2 ^ p" by blast
  have "(2 :: int) ^ p \<le> 2 ^ q" using assms(2) by simp
  with n(2) have "\<bar>n\<bar> \<le> 2 ^ q" by (rule order_trans)
  with n(1) assms show ?thesis by (intro fl_exact) auto
qed

text \<open>Rounding a number whose exponent and nearest multiple of the unit are known.\<close>

lemma round_half_even_unique: "\<bar>of_int n - q\<bar> < 1 / 2 \<Longrightarrow> round_half_even q = n"
proof -
  assume "\<bar>of_int n - q\<bar> < 1 / 2"
  with round_half_even_error [of q] have "\<bar>of_int (round_half_even q) - of_int n :: rat\<bar> < 1" by linarith
  then show ?thesis by linarith
qed

lemma fl_eval:
  assumes "2 powi k \<le> x" "x < 2 powi (k + 1)" "\<bar>of_int n - x / 2 powi (k - int p + 1)\<bar> < 1 / 2"
  shows "fl p x = of_int n * 2 powi (k - int p + 1)"
proof -
  have "0 < x" using assms(1) powi_pos [of k] by linarith
  with expo_unique [OF assms(1,2)] round_half_even_unique [OF assms(3)] show ?thesis
    by (simp add: fl_def fl_pos_def Let_def)
qed

end
