(* ===== verification/C2_TestUtil.thy ===== *)
theory C2_TestUtil
  imports C2_Random C2_Text C2_Float
begin

text \<open>
  The generators of test data (\<open>testutil.cc\<close>). \<open>*dst\<close>, which the returned slice denotes, is the list
  of its characters. A negative length given to \<open>resize\<close> is converted to a \<open>size_t\<close> larger than
  any string and throws: no result.
\<close>

section \<open>Operations\<close>

text \<open>The loop of \<open>RandomString\<close>, \<open>n\<close> characters to go: \<open>static_cast<char>(' ' + rnd->Uniform(95))\<close>.\<close>

fun RandomString_loop :: "nat \<Rightarrow> Random \<Rightarrow> (Random \<times> byte list) option" where
  "RandomString_loop 0 rnd = Some (rnd, [])"
| "RandomString_loop (Suc n) rnd =
     do { (rnd, u) \<leftarrow> Random_Uniform rnd 95;
          (rnd, cs) \<leftarrow> RandomString_loop n rnd;
          Some (rnd, ucast (32 + u) # cs) }"

definition RandomString :: "Random \<Rightarrow> u32 \<Rightarrow> (Random \<times> byte list) option" where
  "RandomString rnd len = (if len <s 0 then None else RandomString_loop (unat len) rnd)"

definition kTestChars :: "byte list" where
  "kTestChars = [0, 1, 97, 98, 99, 100, 101, 0xfd, 0xfe, 0xff]"

fun RandomKey_loop :: "nat \<Rightarrow> Random \<Rightarrow> byte list \<Rightarrow> (Random \<times> byte list) option" where
  "RandomKey_loop 0 rnd result = Some (rnd, result)"
| "RandomKey_loop (Suc n) rnd result =
     do { (rnd, u) \<leftarrow> Random_Uniform rnd (word_of_nat (length kTestChars));
          c \<leftarrow> (if unat u < length kTestChars then Some (kTestChars ! unat u) else None);
          RandomKey_loop n rnd (result @ [c]) }"

text \<open>\<open>for (int i = 0; i < len; i++)\<close> does nothing for a negative length.\<close>

definition RandomKey :: "Random \<Rightarrow> u32 \<Rightarrow> (Random \<times> byte list) option" where
  "RandomKey rnd len = RandomKey_loop (if len <s 0 then 0 else unat len) rnd []"

text \<open>\<open>while (dst->size() < len) dst->append(raw_data)\<close>, which does not end for an empty \<open>raw_data\<close>.\<close>

partial_function (option) fill_loop :: "byte list \<Rightarrow> nat \<Rightarrow> byte list \<Rightarrow> byte list option" where
  "fill_loop raw_data len dst =
     (if length dst < len then fill_loop raw_data len (dst @ raw_data) else Some dst)"

text \<open>\<open>static_cast<int>\<close> drops the fraction and has no result for a number that no \<open>int\<close> holds.\<close>

definition cast_int :: "rat \<Rightarrow> int option" where
  "cast_int x = (let k = (if 0 \<le> x then \<lfloor>x\<rfloor> else \<lceil>x\<rceil>) in if fits_int k then Some k else None)"

text \<open>The length is converted to a \<open>double\<close>, and the product is one.\<close>

definition CompressibleString :: "Random \<Rightarrow> rat \<Rightarrow> u64 \<Rightarrow> (Random \<times> byte list) option" where
  "CompressibleString rnd compressed_fraction len =
     do { raw \<leftarrow> cast_int (double (double (of_nat (unat len)) * compressed_fraction));
          let raw = (if raw < 1 then 1 else raw);
          (rnd, raw_data) \<leftarrow> RandomString rnd (word_of_int raw);
          dst \<leftarrow> fill_loop raw_data (unat len) [];
          Some (rnd, take (unat len) dst) }"

section \<open>What the loops do\<close>

lemma printable_byte: "unat (u :: u32) < 95 \<Longrightarrow> 32 \<le> unat (ucast (32 + u) :: byte) \<and> unat (ucast (32 + u) :: byte) \<le> 126"
proof -
  assume u: "unat u < 95"
  then have "unat (32 + u) = 32 + unat u" by (simp add: unat_word_ariths)
  with u have "unat (ucast (32 + u) :: byte) = 32 + unat u"
    by (simp add: unsigned_ucast_eq take_bit_eq_mod)
  with u show ?thesis by simp
qed

lemma RandomString_loop_spec:
  "\<exists>cs. RandomString_loop n rnd = Some (Random_Nexts n rnd, cs) \<and> length cs = n \<and>
     (\<forall>c \<in> set cs. 32 \<le> unat c \<and> unat c \<le> 126)"
proof (induction n arbitrary: rnd)
  case 0
  then show ?case by simp
next
  case (Suc n)
  obtain cs where cs: "RandomString_loop n (fst (Random_Next rnd)) = Some (Random_Nexts n (fst (Random_Next rnd)), cs)"
      "length cs = n" "\<forall>c \<in> set cs. 32 \<le> unat c \<and> unat c \<le> 126"
    using Suc by blast
  have "unat (snd (Random_Next rnd) mod 95) < 95"
    using unat_mod_less [of 95 "snd (Random_Next rnd)"] by simp
  with cs printable_byte show ?case
    by (auto simp: Uniform_eq Nexts_Next simp del: Random_Nexts.simps)
qed

lemma RandomString_spec:
  assumes "\<not> len <s 0"
  shows "\<exists>cs. RandomString rnd len = Some (Random_Nexts (unat len) rnd, cs) \<and>
    length cs = unat len \<and> (\<forall>c \<in> set cs. 32 \<le> unat c \<and> unat c \<le> 126)"
  using RandomString_loop_spec [of "unat len" rnd] assms by (simp add: RandomString_def)

lemma RandomKey_loop_spec:
  "\<exists>cs. RandomKey_loop n rnd result = Some (Random_Nexts n rnd, result @ cs) \<and> length cs = n \<and>
     set cs \<subseteq> set kTestChars"
proof (induction n arbitrary: rnd result)
  case 0
  then show ?case by simp
next
  case (Suc n)
  let ?i = "unat (snd (Random_Next rnd) mod 10)"
  have i: "?i < length kTestChars"
    using unat_mod_less [of 10 "snd (Random_Next rnd)"] by (simp add: kTestChars_def)
  obtain cs where cs: "RandomKey_loop n (fst (Random_Next rnd)) (result @ [kTestChars ! ?i]) =
      Some (Random_Nexts n (fst (Random_Next rnd)), (result @ [kTestChars ! ?i]) @ cs)"
      "length cs = n" "set cs \<subseteq> set kTestChars"
    using Suc by blast
  have len: "word_of_nat (length kTestChars) = (10 :: u32)" by (simp add: kTestChars_def)
  from cs i show ?case
    by (intro exI [of _ "kTestChars ! ?i # cs"])
      (simp add: Uniform_eq len Nexts_Next del: Random_Nexts.simps)
qed

text \<open>The loop ends for a non-empty string and repeats it.\<close>

lemma fill_loop_spec:
  assumes raw: "raw \<noteq> []"
  shows "\<exists>n. fill_loop raw len dst = Some (dst @ concat (replicate n raw)) \<and>
    len \<le> length dst + n * length raw"
proof (induction "len - length dst" arbitrary: dst rule: less_induct)
  case less
  show ?case
  proof (cases "length dst < len")
    case True
    with raw have "len - length (dst @ raw) < len - length dst" by (cases raw) auto
    from less [OF this] obtain n where n:
        "fill_loop raw len (dst @ raw) = Some ((dst @ raw) @ concat (replicate n raw))"
        "len \<le> length (dst @ raw) + n * length raw"
      by blast
    with True show ?thesis
      by (subst fill_loop.simps) (auto intro: exI [of _ "Suc n"])
  next
    case False
    then show ?thesis by (subst fill_loop.simps) (auto intro: exI [of _ 0])
  qed
qed

lemma nth_concat_replicate:
  "i < n * length xs \<Longrightarrow> concat (replicate n xs) ! i = xs ! (i mod length xs)"
proof (induction n arbitrary: i)
  case (Suc n)
  show ?case
  proof (cases "i < length xs")
    case False
    with Suc.prems Suc.IH [of "i - length xs"] show ?thesis
      by (simp add: nth_append le_mod_geq)
  qed (simp add: nth_append)
qed simp

text \<open>A fraction of a length is cut to an \<open>int\<close> that is no longer: both roundings are exact at the length.\<close>

lemma cast_fraction:
  assumes "0 \<le> cf" "cf \<le> 1" "len < 2 ^ 31"
  shows "\<exists>k. cast_int (double (double (of_nat len) * cf)) = Some k \<and> 0 \<le> k \<and> k \<le> int len"
proof -
  have exact: "double (of_nat len) = of_nat len" using fl_of_int [of "int len" 53] assms(3) by simp
  let ?x = "double (of_nat len * cf)"
  have "0 \<le> ?x" using assms(1) by (intro le_fl) simp_all
  moreover have "?x \<le> of_nat len" using assms(2) exact by (intro fl_le) (simp_all add: mult_left_le)
  then have "\<lfloor>?x\<rfloor> \<le> int len" by linarith
  moreover have "\<lfloor>?x\<rfloor> < 2 ^ 31" using assms(3) calculation by (simp del: floor_less_numeral)
  ultimately show ?thesis unfolding cast_int_def exact Let_def fits_int_def by simp
qed

lemma unat_of_positive_int:
  assumes "0 < k" "k < 2 ^ 31"
  shows "unat (word_of_int k :: u32) = nat k \<and> \<not> (word_of_int k :: u32) <s 0"
proof
  have "uint (word_of_int k :: u32) = k" using assms by (simp add: uint_word_of_int_eq take_bit_int_eq_self)
  then show "unat (word_of_int k :: u32) = nat k" by (metis unat_eq_nat_uint)
  show "\<not> (word_of_int k :: u32) <s 0"
    using assms by (simp add: word_sless_alt signed_of_int signed_take_bit_int_eq_self)
qed

section \<open>Properties\<close>

text \<open>
  \<open>RandomString\<close> and \<open>RandomKey\<close> return a string of the length asked for, of printable
  characters and of characters of the table, and draw one number for each; the table is never
  read out of its bounds.
\<close>

lemma random_strings:
  assumes "\<not> len <s 0"
  shows "(\<exists>cs. RandomString rnd len = Some (Random_Nexts (unat len) rnd, cs) \<and>
      length cs = unat len \<and> (\<forall>c \<in> set cs. 32 \<le> unat c \<and> unat c \<le> 126)) \<and>
    (\<exists>cs. RandomKey rnd len = Some (Random_Nexts (unat len) rnd, cs) \<and>
      length cs = unat len \<and> set cs \<subseteq> set kTestChars)"
  using RandomString_spec [OF assms, of rnd] RandomKey_loop_spec [of "unat len" rnd "[]"] assms
  by (simp add: RandomKey_def)

lemma random_strings_witness:
  "\<exists>cs. RandomString (Random_new 301) 7 = Some (Random_Nexts 7 (Random_new 301), cs) \<and> length cs = 7"
proof -
  have "\<not> (7 :: u32) <s 0" "unat (7 :: u32) = 7" by (simp_all add: word_sless_alt)
  with random_strings [of 7 "Random_new 301"] show ?thesis by auto
qed



end
