(* ===== verification/C2_Harness.thy ===== *)
theory C2_Harness
  imports C2_IO
begin

text \<open>
  The test harness (\<open>testharness.h\<close>, \<open>testharness.cc\<close>): assertions that collect a message and end
  the process when they are destroyed after a failure, the registration of tests, and the run of
  those that an environment variable selects.
\<close>

section \<open>Processes\<close>

text \<open>
  A running program: what it has written to \<open>stderr\<close>, and the state of the world around it. A
  function that may end the program returns \<open>Inl p\<close> after \<open>exit(1)\<close> in the state \<open>p\<close>.
\<close>

record 'w process =
  pr_stderr :: "byte list"
  pr_world :: 'w

definition put_err :: "byte list \<Rightarrow> 'w process \<Rightarrow> 'w process" where
  "put_err s p = p\<lparr>pr_stderr := pr_stderr p @ s\<rparr>"

lemma put_err_sel [simp]: "pr_stderr (put_err s p) = pr_stderr p @ s" "pr_world (put_err s p) = pr_world p"
  by (simp_all add: put_err_def)

lemma put_err_put_err [simp]: "put_err s (put_err r p) = put_err (r @ s) p"
  by (simp add: put_err_def)

section \<open>Assertions\<close>

record Tester =
  ts_ok :: bool
  ts_fname :: "byte list"
  ts_line :: int
  ts_ss :: "byte list"

definition Tester_new :: "byte list \<Rightarrow> int \<Rightarrow> Tester" where
  "Tester_new f l = \<lparr>ts_ok = True, ts_fname = f, ts_line = l, ts_ss = []\<rparr>"

text \<open>\<open>%s\<close> prints the message up to its first zero.\<close>

definition Tester_delete :: "Tester \<Rightarrow> 'w process \<Rightarrow> 'w process + 'w process" where
  "Tester_delete t p =
     (if \<not> ts_ok t
      then Inl (put_err (ts_fname t @ chars '':'' @ dec_int (ts_line t) @ chars '':'' @
                takeWhile (\<lambda>c. c \<noteq> 0) (ts_ss t) @ [10]) p)
      else Inr p)"

definition Tester_Is :: "Tester \<Rightarrow> bool \<Rightarrow> byte list \<Rightarrow> Tester" where
  "Tester_Is t b msg =
     (if \<not> b then t\<lparr>ts_ss := ts_ss t @ chars '' Assertion failure: '' @ msg, ts_ok := False\<rparr> else t)"

text \<open>\<open>ToString\<close> of a status, as a function of the value it stands for.\<close>

definition status_string :: "status_abs \<Rightarrow> byte list" where
  "status_string s = (case s of
       SOk \<Rightarrow> chars ''OK''
     | SErr k msg \<Rightarrow> kCodeString ! code_num k @ (if msg = [] then [] else chars '': '' @ msg))"

definition Tester_IsOk :: "Tester \<Rightarrow> status_abs \<Rightarrow> Tester" where
  "Tester_IsOk t s =
     (if s \<noteq> SOk then t\<lparr>ts_ss := ts_ss t @ chars '' '' @ status_string s, ts_ok := False\<rparr> else t)"

text \<open>
  \<open>BINARY_OP(name, op)\<close> with the text of the operator and the operator itself; \<open>px\<close> and \<open>py\<close> print an
  operand as its type does. The six instances compare operands of one type with a total order, as
  numbers and strings are after the usual conversions; \<open>Slice\<close> is another (\<open>C2_Slice\<close>).
\<close>

definition Tester_BINARY_OP :: "byte list \<Rightarrow> ('x \<Rightarrow> 'y \<Rightarrow> bool) \<Rightarrow> ('x \<Rightarrow> byte list) \<Rightarrow> ('y \<Rightarrow> byte list) \<Rightarrow>
    Tester \<Rightarrow> 'x \<Rightarrow> 'y \<Rightarrow> Tester" where
  "Tester_BINARY_OP op_text op px py t x y =
     (if \<not> op x y
      then t\<lparr>ts_ss := ts_ss t @ chars '' failed: '' @ px x @ (chars '' '' @ op_text @ chars '' '') @ py y,
             ts_ok := False\<rparr>
      else t)"

definition Tester_IsEq :: "('a::linorder \<Rightarrow> byte list) \<Rightarrow> Tester \<Rightarrow> 'a \<Rightarrow> 'a \<Rightarrow> Tester" where
  "Tester_IsEq px = Tester_BINARY_OP (chars ''=='') (\<lambda>x y. x = y) px px"

definition Tester_IsNe :: "('a::linorder \<Rightarrow> byte list) \<Rightarrow> Tester \<Rightarrow> 'a \<Rightarrow> 'a \<Rightarrow> Tester" where
  "Tester_IsNe px = Tester_BINARY_OP (chars ''!='') (\<lambda>x y. x \<noteq> y) px px"

definition Tester_IsGe :: "('a::linorder \<Rightarrow> byte list) \<Rightarrow> Tester \<Rightarrow> 'a \<Rightarrow> 'a \<Rightarrow> Tester" where
  "Tester_IsGe px = Tester_BINARY_OP (chars ''>='') (\<lambda>x y. x \<ge> y) px px"

definition Tester_IsGt :: "('a::linorder \<Rightarrow> byte list) \<Rightarrow> Tester \<Rightarrow> 'a \<Rightarrow> 'a \<Rightarrow> Tester" where
  "Tester_IsGt px = Tester_BINARY_OP (chars ''>'') (\<lambda>x y. x > y) px px"

definition Tester_IsLe :: "('a::linorder \<Rightarrow> byte list) \<Rightarrow> Tester \<Rightarrow> 'a \<Rightarrow> 'a \<Rightarrow> Tester" where
  "Tester_IsLe px = Tester_BINARY_OP (chars ''<='') (\<lambda>x y. x \<le> y) px px"

definition Tester_IsLt :: "('a::linorder \<Rightarrow> byte list) \<Rightarrow> Tester \<Rightarrow> 'a \<Rightarrow> 'a \<Rightarrow> Tester" where
  "Tester_IsLt px = Tester_BINARY_OP (chars ''<'') (\<lambda>x y. x < y) px px"

lemmas Tester_ops = Tester_IsEq_def Tester_IsNe_def Tester_IsGe_def Tester_IsGt_def Tester_IsLe_def
  Tester_IsLt_def Tester_BINARY_OP_def

definition Tester_attach :: "Tester \<Rightarrow> byte list \<Rightarrow> Tester" where
  "Tester_attach t value = (if \<not> ts_ok t then t\<lparr>ts_ss := ts_ss t @ chars '' '' @ value\<rparr> else t)"

text \<open>An assertion statement: a temporary \<open>Tester\<close>, a chain of calls, and its destruction.\<close>

datatype 'a check =
    Is bool "byte list"
  | IsOk status_abs
  | IsEq 'a 'a
  | IsNe 'a 'a
  | IsGe 'a 'a
  | IsGt 'a 'a
  | IsLe 'a 'a
  | IsLt 'a 'a
  | Attach "byte list"

fun do_check :: "('a::linorder \<Rightarrow> byte list) \<Rightarrow> Tester \<Rightarrow> 'a check \<Rightarrow> Tester" where
  "do_check px t (Is b msg) = Tester_Is t b msg"
| "do_check px t (IsOk s) = Tester_IsOk t s"
| "do_check px t (IsEq x y) = Tester_IsEq px t x y"
| "do_check px t (IsNe x y) = Tester_IsNe px t x y"
| "do_check px t (IsGe x y) = Tester_IsGe px t x y"
| "do_check px t (IsGt x y) = Tester_IsGt px t x y"
| "do_check px t (IsLe x y) = Tester_IsLe px t x y"
| "do_check px t (IsLt x y) = Tester_IsLt px t x y"
| "do_check px t (Attach v) = Tester_attach t v"

definition ASSERT :: "('a::linorder \<Rightarrow> byte list) \<Rightarrow> byte list \<Rightarrow> int \<Rightarrow> 'a check list \<Rightarrow>
    'w process \<Rightarrow> 'w process + 'w process" where
  "ASSERT px file line checks = Tester_delete (foldl (do_check px) (Tester_new file line) checks)"

section \<open>Registration and selection\<close>

text \<open>The function of a test has no result where its behaviour is undefined.\<close>

type_synonym 'w test_func = "'w process \<Rightarrow> ('w process + 'w process) option"

record 'w test =
  tst_base :: "byte list"
  tst_name :: "byte list"
  tst_func :: "'w test_func"

text \<open>\<open>tests\<close> is a null pointer until the first registration.\<close>

definition RegisterTest :: "'w test list option \<Rightarrow> byte list \<Rightarrow> byte list \<Rightarrow> 'w test_func \<Rightarrow>
    'w test list option \<times> bool" where
  "RegisterTest tests base name func =
     (let ts = (case tests of None \<Rightarrow> [] | Some ts \<Rightarrow> ts);
          t = \<lparr>tst_base = base, tst_name = name, tst_func = func\<rparr>
      in (Some (ts @ [t]), True))"

text \<open>The \<open>TEST\<close> macro registers its function before \<open>main\<close>; what \<open>RegisterTest\<close> returns is not used.\<close>

definition TEST :: "byte list \<Rightarrow> byte list \<Rightarrow> 'w test_func \<Rightarrow> 'w test list option \<Rightarrow> 'w test list option" where
  "TEST base name func tests = fst (RegisterTest tests base name func)"

text \<open>The body of the loop of \<open>RunAllTests\<close> up to the \<open>continue\<close>s: is the test run?\<close>

definition test_selected :: "byte list option \<Rightarrow> 'w test \<Rightarrow> bool" where
  "test_selected matcher t =
     (case matcher of
        None \<Rightarrow> True
      | Some m \<Rightarrow>
          let name = tst_base t @ chars ''.'' @ tst_name t in
          if \<not> (m \<noteq> [] \<and> hd m = 126) then strstr name m \<noteq> None
          else \<not> strstr name (tl m) \<noteq> None)"

fun RunAllTests_loop :: "byte list option \<Rightarrow> 'w test list \<Rightarrow> nat \<Rightarrow> 'w process \<Rightarrow>
    ('w process + (nat \<times> 'w process)) option" where
  "RunAllTests_loop matcher [] num p = Some (Inr (num, p))"
| "RunAllTests_loop matcher (t # ts) num p =
     (if \<not> test_selected matcher t then RunAllTests_loop matcher ts num p
      else do {
        let p = put_err (chars ''==== Test '' @ tst_base t @ chars ''.'' @ tst_name t @ [10]) p;
        r \<leftarrow> tst_func t p;
        case r of
          Inl p \<Rightarrow> Some (Inl p)
        | Inr p \<Rightarrow> RunAllTests_loop matcher ts (num + 1) p })"

text \<open>The result is the value returned and the state after it.\<close>

definition RunAllTests :: "(byte list \<Rightarrow> byte list option) \<Rightarrow> 'w test list option \<Rightarrow> 'w process \<Rightarrow>
    ('w process + (int \<times> 'w process)) option" where
  "RunAllTests getenv tests p =
     (let matcher = getenv (chars ''C2_TESTS'');
          matcher = (if matcher = None then getenv (chars ''TESTS'') else matcher)
      in do { r \<leftarrow> (case tests of
                 None \<Rightarrow> Some (Inr (0, p))
               | Some ts \<Rightarrow> RunAllTests_loop matcher ts 0 p);
              case r of
                Inl p \<Rightarrow> Some (Inl p)
              | Inr (num, p) \<Rightarrow>
                  Some (Inr (0, put_err (chars ''==== PASSED '' @ dec_int (int num) @ chars '' tests'' @ [10]) p)) })"

section \<open>Parameters of a run\<close>

text \<open>\<open>atoi\<close> has no result for a number that is no \<open>int\<close>.\<close>

definition RandomSeed :: "(byte list \<Rightarrow> byte list option) \<Rightarrow> int option" where
  "RandomSeed getenv =
     (let seed = getenv (chars ''C2_TEST_RANDOM_SEED'');
          seed = (if seed = None then getenv (chars ''TEST_RANDOM_SEED'') else seed)
      in do { result \<leftarrow> (case seed of Some s \<Rightarrow> atoi s | None \<Rightarrow> Some 301);
              Some (if result \<le> 0 then 301 else result) })"

text \<open>
  \<open>IO::Default()\<close> is the wrapper around the unbuffered \<open>IO\<close> (\<open>C2_Singleton\<close>). \<open>__FILE__\<close> is the path of
  \<open>testharness.cc\<close> that the compiler was given.
\<close>

definition TmpDir :: "byte list \<Rightarrow> 'w os \<Rightarrow> 'w process \<Rightarrow> 'w process + (byte list \<times> 'w process)" where
  "TmpDir FILE os p =
     (let (s, dir, w) = IO_GetTestDirectory os (PosixLibcBufferedIOWrapper PosixIO) (pr_world p);
          p = p\<lparr>pr_world := w\<rparr>
      in case ASSERT dec_int FILE 49 [IsOk s, Attach (chars ''Error getting tmp dir'')] p of
           Inl p \<Rightarrow> Inl p
         | Inr p \<Rightarrow> Inr (dir, p))"

section \<open>Assertions report the first failure\<close>

fun holds :: "'a::linorder check \<Rightarrow> bool" where
  "holds (Is b msg) = b"
| "holds (IsOk s) = (s = SOk)"
| "holds (IsEq x y) = (x = y)"
| "holds (IsNe x y) = (x \<noteq> y)"
| "holds (IsGe x y) = (y \<le> x)"
| "holds (IsGt x y) = (y < x)"
| "holds (IsLe x y) = (x \<le> y)"
| "holds (IsLt x y) = (x < y)"
| "holds (Attach v) = True"

text \<open>What a check that does not hold says; \<open>Attach\<close> always speaks.\<close>

fun says :: "('a \<Rightarrow> byte list) \<Rightarrow> 'a check \<Rightarrow> byte list" where
  "says px (Is b msg) = chars '' Assertion failure: '' @ msg"
| "says px (IsOk s) = chars '' '' @ status_string s"
| "says px (IsEq x y) = chars '' failed: '' @ px x @ chars '' == '' @ px y"
| "says px (IsNe x y) = chars '' failed: '' @ px x @ chars '' != '' @ px y"
| "says px (IsGe x y) = chars '' failed: '' @ px x @ chars '' >= '' @ px y"
| "says px (IsGt x y) = chars '' failed: '' @ px x @ chars '' > '' @ px y"
| "says px (IsLe x y) = chars '' failed: '' @ px x @ chars '' <= '' @ px y"
| "says px (IsLt x y) = chars '' failed: '' @ px x @ chars '' < '' @ px y"
| "says px (Attach v) = chars '' '' @ v"

definition attaches :: "'a check \<Rightarrow> bool" where
  "attaches c = (case c of Attach v \<Rightarrow> True | _ \<Rightarrow> False)"

definition complaint :: "('a::linorder \<Rightarrow> byte list) \<Rightarrow> 'a check \<Rightarrow> byte list" where
  "complaint px c = (if holds c \<and> \<not> attaches c then [] else says px c)"

lemmas checks_simps = Tester_Is_def Tester_IsOk_def Tester_ops Tester_attach_def complaint_def attaches_def

lemma do_check_line:
  "ts_fname (foldl (do_check px) t cs) = ts_fname t \<and> ts_line (foldl (do_check px) t cs) = ts_line t"
proof (induction cs arbitrary: t)
  case (Cons c cs)
  have "ts_fname (do_check px t c) = ts_fname t \<and> ts_line (do_check px t c) = ts_line t"
    by (cases c) (simp_all add: checks_simps)
  with Cons [of "do_check px t c"] show ?case by simp
qed simp

lemma do_check_holds: "ts_ok t \<Longrightarrow> holds c \<Longrightarrow> do_check px t c = t"
  by (cases c) (simp_all add: checks_simps)

lemma do_check_fails:
  "\<not> ts_ok t \<or> \<not> holds c \<Longrightarrow>
     \<not> ts_ok (do_check px t c) \<and> ts_ss (do_check px t c) = ts_ss t @ complaint px c"
  by (cases c) (auto simp: checks_simps chars_def)

lemma failed_complaints:
  "\<not> ts_ok t \<Longrightarrow> \<not> ts_ok (foldl (do_check px) t cs) \<and>
     ts_ss (foldl (do_check px) t cs) = ts_ss t @ concat (map (complaint px) cs)"
proof (induction cs arbitrary: t)
  case (Cons c cs)
  with do_check_fails [of t c px] Cons.IH [of "do_check px t c"] show ?case by simp
qed simp

lemma checks_result:
  "ts_ok t \<Longrightarrow> foldl (do_check px) t cs = t \<and> list_all holds cs \<or>
     \<not> list_all holds cs \<and> \<not> ts_ok (foldl (do_check px) t cs) \<and>
     ts_ss (foldl (do_check px) t cs) = ts_ss t @ concat (map (complaint px) (dropWhile holds cs))"
proof (induction cs arbitrary: t)
  case (Cons c cs)
  show ?case
  proof (cases "holds c")
    case True
    with Cons do_check_holds [of t c px] show ?thesis by simp
  next
    case False
    with do_check_fails [of t c px] failed_complaints [of "do_check px t c" px cs] show ?thesis by simp
  qed
qed simp

lemma TmpDir_ok:
  assumes "PosixIO_GetTestDirectory os (pr_world p) = (SOk, dir, w)"
  shows "TmpDir FILE os p = Inr (dir, p\<lparr>pr_world := w\<rparr>)"
  using assms by (simp add: TmpDir_def ASSERT_def Tester_delete_def Tester_new_def Tester_IsOk_def Tester_attach_def)

section \<open>Properties\<close>

text \<open>
  C37: an assertion passes exactly when all its checks hold (a condition, a status, or one of the six
  comparisons), and then does nothing; otherwise the process ends with one more line on \<open>stderr\<close>: the
  file, the line number, and, up to the first zero byte, what the first failing check and all that
  follow it in the chain have to say: a failed comparison both operands and the operator between
  them, a value attached after the failure itself, one attached before it nothing.
\<close>

theorem assertion_reports:
  "ASSERT px file line checks p =
    (if list_all holds checks then Inr p
     else Inl (put_err (file @ chars '':'' @ dec_int line @ chars '':'' @
       takeWhile (\<lambda>c. c \<noteq> 0) (concat (map (complaint px) (dropWhile holds checks))) @ [10]) p))"
  using checks_result [of "Tester_new file line" px checks] do_check_line [of px "Tester_new file line" checks]
  by (auto simp: ASSERT_def Tester_delete_def Tester_new_def)

text \<open>The reference: announce and run every test of a list, up to the first that ends the process.\<close>

definition test_title :: "'w test \<Rightarrow> byte list" where
  "test_title t = tst_base t @ chars ''.'' @ tst_name t"

fun run_tests :: "'w test list \<Rightarrow> 'w process \<Rightarrow> ('w process + 'w process) option" where
  "run_tests [] p = Some (Inr p)"
| "run_tests (t # ts) p =
     (case tst_func t (put_err (chars ''==== Test '' @ test_title t @ [10]) p) of
        Some (Inr p) \<Rightarrow> run_tests ts p
      | r \<Rightarrow> r)"

lemma RunAllTests_loop_spec:
  "RunAllTests_loop matcher ts num p =
    (let sel = filter (test_selected matcher) ts in
     case run_tests sel p of
       None \<Rightarrow> None
     | Some (Inl p') \<Rightarrow> Some (Inl p')
     | Some (Inr p') \<Rightarrow> Some (Inr (num + length sel, p')))"
proof (induction ts arbitrary: num p)
  case (Cons t ts)
  then show ?case by (auto simp: Let_def test_title_def split: sum.split Option.bind_split option.split)
qed simp

text \<open>The registrations that the \<open>TEST\<close> macros make before \<open>main\<close>.\<close>

definition register_all :: "'w test list \<Rightarrow> 'w test list option" where
  "register_all ts =
     foldl (\<lambda>tests t. TEST (tst_base t) (tst_name t) (tst_func t) tests) None ts"

lemma register_all_eq: "register_all ts = (if ts = [] then None else Some ts)"
  by (induction ts rule: rev_induct) (auto simp: register_all_def TEST_def RegisterTest_def Let_def)

lemma RunAllTests_eq:
  "RunAllTests getenv (register_all ts) p =
    (let matcher = (if getenv (chars ''C2_TESTS'') = None then getenv (chars ''TESTS'')
                    else getenv (chars ''C2_TESTS''));
         sel = filter (test_selected matcher) ts
     in case run_tests sel p of
          None \<Rightarrow> None
        | Some (Inl p') \<Rightarrow> Some (Inl p')
        | Some (Inr p') \<Rightarrow> Some (Inr (0,
            put_err (chars ''==== PASSED '' @ dec_int (int (length sel)) @ chars '' tests'' @ [10]) p')))"
  by (simp add: RunAllTests_def RunAllTests_loop_spec register_all_eq Let_def split: option.split sum.split)

lemma run_tests_ok:
  "\<forall>t \<in> set ts. \<forall>p. \<exists>out. tst_func t p = Some (Inr (put_err out p)) \<Longrightarrow>
   \<exists>out. run_tests ts p = Some (Inr (put_err out p))"
proof (induction ts arbitrary: p)
  case Nil
  show ?case by (simp add: put_err_def exI [of _ "[]"])
next
  case (Cons t ts)
  let ?p = "put_err (chars ''==== Test '' @ test_title t @ [10]) p"
  obtain out where "tst_func t ?p = Some (Inr (put_err out ?p))" using Cons.prems by fastforce
  with Cons.IH [of "put_err out ?p"] Cons.prems show ?case by auto
qed

text \<open>
  C8: \<open>RunAllTests\<close> runs, in the order of registration, all tests when neither \<open>C2_TESTS\<close> nor \<open>TESTS\<close>
  is set; else the tests whose full name contains the value, or with a leading \<open>~\<close> those whose
  name does not contain the rest of it; it announces each of them, stops at the first test that
  ends the process, with what has been written until then, and else reports the number it ran.
\<close>

theorem run_all_tests_selects:
  "RunAllTests getenv (register_all ts) p =
    (let matcher = (if getenv (chars ''C2_TESTS'') = None then getenv (chars ''TESTS'')
                    else getenv (chars ''C2_TESTS''));
         sel = filter (\<lambda>t. case matcher of
                   None \<Rightarrow> True
                 | Some (c # m) \<Rightarrow> if c = 126 then \<not> sublist m (test_title t)
                                   else sublist (c # m) (test_title t)
                 | Some [] \<Rightarrow> True) ts
     in case run_tests sel p of
          None \<Rightarrow> None
        | Some (Inl p') \<Rightarrow> Some (Inl p')
        | Some (Inr p') \<Rightarrow> Some (Inr (0,
            put_err (chars ''==== PASSED '' @ dec_int (int (length sel)) @ chars '' tests'' @ [10]) p')))"
proof -
  have sel: "test_selected matcher = (\<lambda>t. case matcher of
                   None \<Rightarrow> True
                 | Some (c # m) \<Rightarrow> if c = 126 then \<not> sublist m (test_title t)
                                   else sublist (c # m) (test_title t)
                 | Some [] \<Rightarrow> True)" for matcher
    by (rule ext) (auto simp: test_selected_def test_title_def Let_def strstr_None_iff
        simp del: not_None_eq split: option.split list.split)
  show ?thesis unfolding RunAllTests_eq sel ..
qed

text \<open>
  The seed of a run is always positive: 301 unless one of the two variables holds a positive
  number, and a number printed with \<open>%d\<close> is read back as it was.
\<close>

lemma random_seed_positive:
  "(RandomSeed getenv = Some k \<longrightarrow> 0 < k) \<and>
   (getenv (chars ''C2_TEST_RANDOM_SEED'') = Some (dec_int k) \<and> fits_int k \<longrightarrow>
      RandomSeed getenv = Some (if 0 < k then k else 301)) \<and>
   (getenv (chars ''C2_TEST_RANDOM_SEED'') = None \<and> getenv (chars ''TEST_RANDOM_SEED'') = None \<longrightarrow>
      RandomSeed getenv = Some 301)"
  by (auto simp: RandomSeed_def Let_def atoi_dec_int bind_Some_iff split: if_splits)

lemma random_seed_positive_witness:
  "RandomSeed [chars ''C2_TEST_RANDOM_SEED'' \<mapsto> dec_int 42] = Some 42 \<and> RandomSeed Map.empty = Some 301"
  using random_seed_positive [of "[chars ''C2_TEST_RANDOM_SEED'' \<mapsto> dec_int 42]" 42]
    random_seed_positive [of Map.empty 42]
  by (simp add: fits_int_def)

end
