(* ===== verification/C2_ErrorValue.thy ===== *)
theory C2_ErrorValue
  imports C2_Harness C2_File
begin

text \<open>
  The link between the statuses of the file and harness theories, which are values, and the objects
  of \<open>C2_Status\<close>: \<open>PosixError\<close> on objects constructs what \<open>PosixError\<close> on values says, and what the
  callers ask of a status, \<open>ok()\<close>, \<open>IsAlreadyExists()\<close> and \<open>ToString()\<close>, has the same answer.
\<close>

text \<open>
  \<open>PosixError\<close> (\<open>c2_io_posix.cc\<close>) with its calls of \<open>Status::Err(msg, msg2)\<close>, which construct a
  \<open>Status\<close> from two slices; \<open>strerror\<close> is the slice of the message that the C library returns.
\<close>

definition PosixError_object :: "platform \<Rightarrow> store \<Rightarrow> slice \<Rightarrow> int \<Rightarrow> slice \<Rightarrow> (store \<times> Status) option" where
  "PosixError_object pf m err_context err_number strerror =
     (if err_number = EEXIST then Status_Err kAlreadyExists pf m err_context None
      else if err_number = ENOENT then Status_Err kNotFound pf m err_context None
      else if err_number = EACCES then Status_Err kAccessDenied pf m err_context None
      else Status_Err kIOError pf m err_context (Some strerror))"

lemma err_status_constructed:
  assumes "wf_store m" "slice_bytes m msg = Some bs" "slice_bytes m msg2 = Some bs2"
    and "error_code k" "length (status_text bs bs2) + 5 < 2 ^ 32"
  shows "\<exists>m' s. Status_new pf m k msg msg2 = Some (m', s) \<and> status_rep pf m' s (err_status k bs bs2) \<and>
    (\<forall>b. blocks m b \<noteq> None \<longrightarrow> blocks m' b = blocks m b)"
proof -
  let ?t = "state_bytes pf k (status_text bs bs2)"
  have "Status_new pf m k msg msg2 = Some (with_fresh m ?t, \<lparr>st_state = Ptr (next_block m) 0\<rparr>)"
    using Status_new_eq [OF assms(1-3) error_code_not_kOk [OF assms(4)] assms(5)] .
  moreover have "status_rep pf (with_fresh m ?t) \<lparr>st_state = Ptr (next_block m) 0\<rparr> (err_status k bs bs2)"
    unfolding err_status_def using assms(4,5) by (intro status_rep_fresh)
  moreover have "blocks m b \<noteq> None \<Longrightarrow> blocks (with_fresh m ?t) b = blocks m b" for b
    using assms(1) by (auto simp: blocks_with_fresh wf_store_def)
  ultimately show ?thesis by blast
qed

lemma error_codes [simp]:
  "error_code kAlreadyExists" "error_code kNotFound" "error_code kAccessDenied" "error_code kIOError"
  by (simp_all add: error_code_def less_Code_def kMaxCode_def)

lemma status_text_le: "length (status_text bs []) \<le> length (status_text bs cs)"
  by (simp add: status_text_def low32_def)

lemma answers_rep:
  assumes "status_rep pf m s a"
  shows "Status_ok s \<longleftrightarrow> a = SOk" "Status_Is m kAlreadyExists s = Some (is_AlreadyExists a)"
    "Status_ToString pf m s = Some (status_string a)"
proof -
  show "Status_ok s \<longleftrightarrow> a = SOk" using assms by (cases a) (auto simp: Status_ok_def)
  show "Status_Is m kAlreadyExists s = Some (is_AlreadyExists a)"
    using Status_code_rep [OF assms] by (cases a) (auto simp: Status_Is_def is_AlreadyExists_def)
  show "Status_ToString pf m s = Some (status_string a)"
  proof (cases a)
    case SOk
    with assms show ?thesis by (simp add: Status_ToString_def status_string_def)
  next
    case (SErr k msg)
    with Status_ToString_rep [of pf m s k msg] assms show ?thesis by (simp add: status_string_def)
  qed
qed

text \<open>
  C28: the status objects that \<open>PosixError\<close> makes are the values that the theories of files compute
  with: for every error number the object is constructed without a fault, in memory of its own,
  it is never OK, and \<open>IsAlreadyExists\<close> and \<open>ToString\<close> answer what they answer for the value. The
  context and the message must leave room for the header in 4 GiB.
\<close>

theorem posix_error_refines:
  assumes "wf_store m" "slice_bytes m err_context = Some ctx"
    and "slice_bytes m strerror = Some (os_strerror os e)"
    and "length (status_text ctx (os_strerror os e)) + 5 < 2 ^ 32"
  shows "\<exists>m' s. PosixError_object pf m err_context e strerror = Some (m', s) \<and>
    status_rep pf m' s (PosixError os ctx e) \<and> (\<forall>b. blocks m b \<noteq> None \<longrightarrow> blocks m' b = blocks m b) \<and>
    \<not> Status_ok s \<and> Status_Is m' kAlreadyExists s = Some (is_AlreadyExists (PosixError os ctx e)) \<and>
    Status_ToString pf m' s = Some (status_string (PosixError os ctx e))"
proof -
  have small: "length (status_text ctx []) + 5 < 2 ^ 32"
    using status_text_le [of ctx "os_strerror os e"] assms(4) by simp
  have "\<exists>m' s. PosixError_object pf m err_context e strerror = Some (m', s) \<and>
      status_rep pf m' s (PosixError os ctx e) \<and> (\<forall>b. blocks m b \<noteq> None \<longrightarrow> blocks m' b = blocks m b)"
    using err_status_constructed [OF assms(1,2) slice_bytes_empty [OF assms(1)] _ small, of kAlreadyExists pf]
      err_status_constructed [OF assms(1,2) slice_bytes_empty [OF assms(1)] _ small, of kNotFound pf]
      err_status_constructed [OF assms(1,2) slice_bytes_empty [OF assms(1)] _ small, of kAccessDenied pf]
      err_status_constructed [OF assms(1-3) _ assms(4), of kIOError pf]
    by (simp add: PosixError_object_def PosixError_def Status_Err_def)
  then obtain m' s where s: "PosixError_object pf m err_context e strerror = Some (m', s)"
      "status_rep pf m' s (PosixError os ctx e)" "\<forall>b. blocks m b \<noteq> None \<longrightarrow> blocks m' b = blocks m b"
    by blast
  moreover have "\<not> Status_ok s" using answers_rep(1) [OF s(2)] by simp
  ultimately show ?thesis using answers_rep(2,3) [OF s(2)] by blast
qed

theorem posix_error_refines_witness:
  "\<exists>m' s. PosixError_object \<lparr>kLittleEndian = False, NDEBUG = False\<rparr> (two_blocks [102] (chars ''error''))
       (Slice_new (Ptr 1 0) 1) 5 (Slice_new (Ptr 2 0) 5) = Some (m', s) \<and>
     Status_ToString \<lparr>kLittleEndian = False, NDEBUG = False\<rparr> m' s = Some (chars ''IO error: f: error'')"
proof -
  let ?m = "two_blocks [102] (chars ''error'')"
  have m: "wf_store ?m" "slice_bytes ?m (Slice_new (Ptr 1 0) 1) = Some [102]"
    "slice_bytes ?m (Slice_new (Ptr 2 0) 5) = Some (os_strerror mem_os 5)"
    by (auto simp: wf_store_def two_blocks_def slice_bytes_def Slice_new_def mem_os_def)
  have t: "status_text [102] (os_strerror mem_os 5) = chars ''f: error''"
    by (simp add: status_text_def low32_def mem_os_def chars_def)
  then have fits: "length (status_text [102] (os_strerror mem_os 5)) + 5 < 2 ^ 32" by simp
  have "status_string (PosixError mem_os [102] 5) = chars ''IO error: f: error''"
    unfolding PosixError_def err_status_def t
    by (simp add: EEXIST_def ENOENT_def EACCES_def status_string_def kCodeString_def chars_def)
  with posix_error_refines [OF m fits, of "\<lparr>kLittleEndian = False, NDEBUG = False\<rparr>"] show ?thesis by metis
qed

end
