(* ===== verification/C2_Env.thy ===== *)
theory C2_Env
  imports C2_Prelude
begin

text \<open>
  Time and thread numbers (\<open>c2_env.cc\<close>, \<open>port_posix.cc\<close>). What \<open>gettimeofday\<close> and \<open>pthread_self\<close>
  answer is an argument.
\<close>

text \<open>\<open>tv_sec\<close> and \<open>tv_usec\<close> are signed; \<open>tv_usec\<close> is converted for the unsigned sum.\<close>

definition CurrentMicros :: "int \<Rightarrow> int \<Rightarrow> u64" where
  "CurrentMicros tv_sec tv_usec = word_of_int tv_sec * 1000000 + word_of_int tv_usec"

text \<open>The argument of \<open>usleep\<close>.\<close>

definition SleepForMicroseconds :: "u32 \<Rightarrow> nat" where
  "SleepForMicroseconds micros = unat micros"

text \<open>The object representation of a \<open>pthread_t\<close> copied over the first bytes of a zero.\<close>

definition PthreadId :: "platform \<Rightarrow> byte list \<Rightarrow> u64" where
  "PthreadId pf tid =
     word_of_nat (host_val pf (take 8 tid @ replicate (8 - length tid) 0))"

lemma CurrentMicros_eq: "CurrentMicros s u = word_of_int (1000000 * s + u)"
  by (simp add: CurrentMicros_def mult.commute)

lemma CurrentMicros_diff:
  "CurrentMicros s2 u2 - CurrentMicros s1 u1 = word_of_int (1000000 * (s2 - s1) + (u2 - u1))"
  by (simp add: CurrentMicros_eq algebra_simps)

lemma le_val_inj: "length bs = length cs \<Longrightarrow> le_val bs = le_val cs \<Longrightarrow> bs = cs"
  by (metis le_bytes_le_val)

section \<open>Property\<close>

text \<open>
  As the comment of \<open>CurrentMicros\<close> asks, its results are good for deltas: the difference of two
  is the time between them in microseconds, for any clock and whenever the first was taken, even
  if the product wraps; and two threads whose \<open>pthread_t\<close> have 8 bytes have different numbers.
\<close>

lemma micros_deltas:
  "(0 \<le> 1000000 * (s2 - s1) + (u2 - u1) \<and> 1000000 * (s2 - s1) + (u2 - u1) < 2 ^ 64 \<longrightarrow>
      uint (CurrentMicros s2 u2 - CurrentMicros s1 u1) = 1000000 * (s2 - s1) + (u2 - u1)) \<and>
   (length t1 = 8 \<and> length t2 = 8 \<and> PthreadId pf t1 = PthreadId pf t2 \<longrightarrow> t1 = t2)"
proof (intro conjI impI)
  assume "0 \<le> 1000000 * (s2 - s1) + (u2 - u1) \<and> 1000000 * (s2 - s1) + (u2 - u1) < 2 ^ 64"
  then show "uint (CurrentMicros s2 u2 - CurrentMicros s1 u1) = 1000000 * (s2 - s1) + (u2 - u1)"
    by (simp add: CurrentMicros_diff take_bit_int_eq_self unsigned_of_int del: of_int_add of_int_mult of_int_diff)
next
  assume t: "length t1 = 8 \<and> length t2 = 8 \<and> PthreadId pf t1 = PthreadId pf t2"
  have less: "host_val pf t < 2 ^ 64" if "length t = 8" for t
    using le_val_less [of t] le_val_less [of "rev t"] that by (simp add: host_val_def)
  from t have "host_val pf t1 = host_val pf t2"
    using less [of t1] less [of t2]
    by (auto simp: PthreadId_def word_of_nat_eq_iff take_bit_nat_eq_self)
  then show "t1 = t2"
    using t le_val_inj [of t1 t2] le_val_inj [of "rev t1" "rev t2"]
    by (simp add: host_val_def split: if_splits)
qed

lemma micros_deltas_witness:
  "uint (CurrentMicros 5 10 - CurrentMicros 4 999990) = 20"
  using micros_deltas [of 5 4 10 999990 "[]" "[]"] by simp

end
