(* ===== verification/C2_Builder.thy ===== *)
theory C2_Builder
  imports C2_IO Complex_Main
begin

text \<open>
  \<open>IndexBuilder\<close> (\<open>c2_index_builder.h\<close>, \<open>c2_index_builder.cc\<close>), a subclass of \<open>ibis::bin\<close> of the
  FastBit library, which is not in the repository: the inherited fields that the code reads are a
  record, and what it asks of a bit vector, its sizes in bytes and its count, are functions given
  as arguments. The two \<open>TEST_\<close> templates, which call the library, are in \<open>C2_BenchRun\<close>.
\<close>

section \<open>State\<close>

text \<open>
  The fields of \<open>ibis::bin\<close>: a null bit vector is \<open>None\<close>, and a \<open>double\<close> of the boundaries and of the
  smallest and largest values of the bins is the rational it stands for.
\<close>

record 'bv ibis_bin =
  bin_nobs :: u32
  bin_offset64 :: "int list"
  bin_bits :: "'bv option list"
  bin_bounds :: "rat list"
  bin_minval :: "rat list"
  bin_maxval :: "rat list"
  bin_nrows :: u32

text \<open>A \<open>'c\<close> is the address of a column; \<open>None\<close>, the default of the options, is a null pointer.\<close>

record 'c IndexBuilderOptions =
  ibis_col :: "'c option"

definition IndexBuilderOptions_new :: "'c IndexBuilderOptions" where
  "IndexBuilderOptions_new = \<lparr>ibis_col = None\<rparr>"

record ('bv, 'c) IndexBuilder =
  ib_bin :: "'bv ibis_bin"
  ib_col :: "'c option"
  ib_options :: "'c IndexBuilderOptions"
  ib_file :: "WritableFile option"

section \<open>Operations\<close>

text \<open>
  The constructor, on the base object that \<open>ibis::bin(NULL, NULL)\<close> has made; \<open>col\<close> is the column of
  the options, and the assertions say that the base object is empty.
\<close>

definition IndexBuilder_new :: "platform \<Rightarrow> 'bv ibis_bin \<Rightarrow> 'c IndexBuilderOptions \<Rightarrow> WritableFile option \<Rightarrow>
    ('bv, 'c) IndexBuilder option" where
  "IndexBuilder_new pf base options file =
     do { c_assert pf (bin_nobs base = 0);
          c_assert pf (length (bin_offset64 base) = 0);
          c_assert pf (length (bin_bits base) = 0);
          c_assert pf (bin_nrows base = 0);
          Some \<lparr>ib_bin = base, ib_col = ibis_col options, ib_options = options, ib_file = file\<rparr> }"

text \<open>The loop over \<open>bits\<close>, with \<open>result\<close> a \<open>uint32_t\<close>.\<close>

fun usage_loop :: "('bv \<Rightarrow> u32) \<Rightarrow> 'bv option list \<Rightarrow> u32 \<Rightarrow> u32" where
  "usage_loop sz [] result = result"
| "usage_loop sz (b # bs) result =
     usage_loop sz bs (case b of None \<Rightarrow> result | Some v \<Rightarrow> result + sz v)"

definition DiskStorageUsage :: "('bv \<Rightarrow> u32) \<Rightarrow> ('bv, 'c) IndexBuilder \<Rightarrow> u32" where
  "DiskStorageUsage getSerialSize b = usage_loop getSerialSize (bin_bits (ib_bin b)) 0"

definition MemoryUsage :: "('bv \<Rightarrow> u32) \<Rightarrow> ('bv, 'c) IndexBuilder \<Rightarrow> u32" where
  "MemoryUsage bytes b = usage_loop bytes (bin_bits (ib_bin b)) 0"

definition NumBitVectors :: "('bv, 'c) IndexBuilder \<Rightarrow> u32" where
  "NumBitVectors b = bin_nobs (ib_bin b)"

text \<open>\<open>bits[i]\<close> is not checked: no result beyond the end.\<close>

definition bits_at :: "('bv, 'c) IndexBuilder \<Rightarrow> nat \<Rightarrow> 'bv option option" where
  "bits_at b i =
     (if i < length (bin_bits (ib_bin b)) then Some (bin_bits (ib_bin b) ! i) else None)"

definition NumKeys :: "('bv \<Rightarrow> u32) \<Rightarrow> ('bv, 'c) IndexBuilder \<Rightarrow> nat \<Rightarrow> u32 option" where
  "NumKeys cnt b i =
     do { v \<leftarrow> bits_at b i; Some (case v of Some v \<Rightarrow> cnt v | None \<Rightarrow> 0) }"

definition MemoryUsage_at :: "('bv \<Rightarrow> u32) \<Rightarrow> ('bv, 'c) IndexBuilder \<Rightarrow> nat \<Rightarrow> u32 option" where
  "MemoryUsage_at bytes b i =
     do { v \<leftarrow> bits_at b i; Some (case v of Some v \<Rightarrow> bytes v | None \<Rightarrow> 0) }"

text \<open>\<open>Reset\<close> is the \<open>clear\<close> of the base class.\<close>

definition IndexBuilder_Reset :: "('bv ibis_bin \<Rightarrow> 'bv ibis_bin) \<Rightarrow> ('bv, 'c) IndexBuilder \<Rightarrow>
    ('bv, 'c) IndexBuilder" where
  "IndexBuilder_Reset clear b = b\<lparr>ib_bin := clear (ib_bin b)\<rparr>"

text \<open>\<open>nobs\<close> is compared as a \<open>size_t\<close>.\<close>

definition IndexBuilder_Finish :: "platform \<Rightarrow> ('bv, 'c) IndexBuilder \<Rightarrow> status_abs option" where
  "IndexBuilder_Finish pf b =
     do { let n = unat (bin_nobs (ib_bin b));
          c_assert pf (n = length (bin_bits (ib_bin b)));
          c_assert pf (length (bin_bounds (ib_bin b)) = n);
          c_assert pf (length (bin_minval (ib_bin b)) = n);
          c_assert pf (length (bin_maxval (ib_bin b)) = n);
          Some SOk }"

text \<open>\<open>delete file_\<close> does nothing for a null pointer.\<close>

definition IndexBuilder_delete :: "'w os \<Rightarrow> ('bv, 'c) IndexBuilder \<Rightarrow> 'w \<Rightarrow> 'w" where
  "IndexBuilder_delete os b w =
     (case ib_file b of None \<Rightarrow> w | Some f \<Rightarrow> WritableFile_delete os f w)"

section \<open>Sums\<close>

definition total_size :: "('bv \<Rightarrow> u32) \<Rightarrow> 'bv option list \<Rightarrow> nat" where
  "total_size sz bs = sum_list (map (\<lambda>b. case b of None \<Rightarrow> 0 | Some v \<Rightarrow> unat (sz v)) bs)"

lemma usage_loop_sum:
  "usage_loop sz bs result = result + word_of_nat (total_size sz bs)"
  by (induction bs arbitrary: result) (auto simp: total_size_def algebra_simps split: option.split)

lemma total_size_at:
  "i < length bs \<Longrightarrow> (case bs ! i of None \<Rightarrow> 0 | Some v \<Rightarrow> unat (sz v)) \<le> total_size sz bs"
  by (induction bs arbitrary: i) (auto simp: total_size_def less_Suc_eq_0_disj intro: trans_le_add2)

section \<open>Property\<close>

text \<open>
  \<open>DiskStorageUsage\<close> and \<open>MemoryUsage\<close> are the sums of the sizes of the bit vectors, null ones
  counting nothing, modulo \<open>2 ^ 32\<close>; an index of 4 GiB or more is reported too small. In a builder
  that passes the assertions of \<open>Finish\<close>, every bit vector below \<open>NumBitVectors\<close> can be asked for
  its own size and count.
\<close>

lemma builder_usage:
  "unat (DiskStorageUsage getSerialSize b) = total_size getSerialSize (bin_bits (ib_bin b)) mod 2 ^ 32 \<and>
   unat (MemoryUsage bytes b) = total_size bytes (bin_bits (ib_bin b)) mod 2 ^ 32 \<and>
   (IndexBuilder_Finish \<lparr>kLittleEndian = e, NDEBUG = False\<rparr> b = Some st \<and> i < unat (NumBitVectors b) \<longrightarrow>
      st = SOk \<and>
      (\<exists>k n. NumKeys cnt b i = Some k \<and> MemoryUsage_at bytes b i = Some n \<and>
         unat n \<le> total_size bytes (bin_bits (ib_bin b))))"
proof (intro conjI impI)
  show "unat (DiskStorageUsage getSerialSize b) = total_size getSerialSize (bin_bits (ib_bin b)) mod 2 ^ 32"
    "unat (MemoryUsage bytes b) = total_size bytes (bin_bits (ib_bin b)) mod 2 ^ 32"
    by (simp_all add: DiskStorageUsage_def MemoryUsage_def usage_loop_sum unat_of_nat take_bit_eq_mod)
next
  assume a: "IndexBuilder_Finish \<lparr>kLittleEndian = e, NDEBUG = False\<rparr> b = Some st \<and> i < unat (NumBitVectors b)"
  then have "st = SOk" and i: "i < length (bin_bits (ib_bin b))"
    by (auto simp: IndexBuilder_Finish_def Let_def c_assert_def NumBitVectors_def bind_Some_iff
        split: if_splits)
  then show "st = SOk" by simp
  show "\<exists>k n. NumKeys cnt b i = Some k \<and> MemoryUsage_at bytes b i = Some n \<and>
      unat n \<le> total_size bytes (bin_bits (ib_bin b))"
    using i total_size_at [OF i, of bytes]
    by (cases "bin_bits (ib_bin b) ! i") (simp_all add: NumKeys_def MemoryUsage_at_def bits_at_def)
qed

lemma builder_usage_witness:
  "unat (DiskStorageUsage id \<lparr>ib_bin = \<lparr>bin_nobs = 3, bin_offset64 = [],
       bin_bits = [Some 0xFFFFFFFF, None, Some 6], bin_bounds = [1, 2, 3], bin_minval = [0, 1, 2],
       bin_maxval = [1, 2, 3], bin_nrows = 9\<rparr>, ib_col = Some (), ib_options = \<lparr>ibis_col = Some ()\<rparr>, ib_file = None\<rparr>) = 5"
  using builder_usage [of id "\<lparr>ib_bin = \<lparr>bin_nobs = 3, bin_offset64 = [],
       bin_bits = [Some 0xFFFFFFFF, None, Some 6], bin_bounds = [1, 2, 3], bin_minval = [0, 1, 2],
       bin_maxval = [1, 2, 3], bin_nrows = 9\<rparr>, ib_col = Some (), ib_options = \<lparr>ibis_col = Some ()\<rparr>, ib_file = None\<rparr>"]
  by (simp add: total_size_def)

end
