(* ===== verification/C2_Bench.thy ===== *)
theory C2_Bench
  imports C2_Random C2_IO C2_Float
begin

text \<open>
  The index benchmark (\<open>c2_index_bench.cc\<close>): its flags, the parsing of the command line, the
  specification handed to FastBit and the random keys. FastBit itself, the clock and the output
  are left out; keys and bounds are computed in the arithmetic of \<open>C2_Float\<close>.
\<close>

section \<open>Flags\<close>

record bench_flags =
  FLAGS_fastbit_v :: int
  FLAGS_fastbit_strategy :: int
  FLAGS_fastbit_nbins :: int
  FLAGS_fastbit_granule :: int
  FLAGS_fastbit_granule_precision :: int
  FLAGS_key_skewed :: int
  FLAGS_n :: int
  FLAGS_value_min :: int
  FLAGS_value_max :: int

definition bench_defaults :: bench_flags where
  "bench_defaults = \<lparr>FLAGS_fastbit_v = 0, FLAGS_fastbit_strategy = 0, FLAGS_fastbit_nbins = 180,
     FLAGS_fastbit_granule = 0, FLAGS_fastbit_granule_precision = 2, FLAGS_key_skewed = 0,
     FLAGS_n = 100, FLAGS_value_min = 100, FLAGS_value_max = 1000\<rparr>"

text \<open>The options, in the order in which the \<open>else if\<close>s try them.\<close>

datatype bench_opt = Nbins | Strategy | GranulePrecision | Granule | Skewed | Verbose | Nkeys

definition bench_opts :: "bench_opt list" where
  "bench_opts = [Nbins, Strategy, GranulePrecision, Granule, Skewed, Verbose, Nkeys]"

fun opt_prefix :: "bench_opt \<Rightarrow> byte list" where
  "opt_prefix Nbins = chars ''--nbins=''"
| "opt_prefix Strategy = chars ''--strategy=''"
| "opt_prefix GranulePrecision = chars ''--granule-precision=''"
| "opt_prefix Granule = chars ''--granule=''"
| "opt_prefix Skewed = chars ''--skewed=''"
| "opt_prefix Verbose = chars ''-v=''"
| "opt_prefix Nkeys = chars ''-n=''"

fun opt_set :: "bench_opt \<Rightarrow> int \<Rightarrow> bench_flags \<Rightarrow> bench_flags" where
  "opt_set Nbins a f = f\<lparr>FLAGS_fastbit_nbins := a\<rparr>"
| "opt_set Strategy a f = f\<lparr>FLAGS_fastbit_strategy := a\<rparr>"
| "opt_set GranulePrecision a f = f\<lparr>FLAGS_fastbit_granule_precision := a\<rparr>"
| "opt_set Granule a f = f\<lparr>FLAGS_fastbit_granule := a\<rparr>"
| "opt_set Skewed a f = f\<lparr>FLAGS_key_skewed := a\<rparr>"
| "opt_set Verbose a f = f\<lparr>FLAGS_fastbit_v := a\<rparr>"
| "opt_set Nkeys a f = f\<lparr>FLAGS_n := a\<rparr>"

text \<open>
  \<open>sscanf(arg, prefix "%d%c", &a, &junk) == 1\<close>: the prefix, a number, and then the end of the
  argument. The outer \<open>None\<close> is the undefined conversion of a number that is no \<open>int\<close>; the inner
  one, another return value.
\<close>

definition sscanf_flag :: "byte list \<Rightarrow> byte list \<Rightarrow> int option option" where
  "sscanf_flag p arg =
     (if prefix p arg
      then case parse_dec (drop (length p) arg) of
          None \<Rightarrow> Some None
        | Some (a, rest) \<Rightarrow>
            if \<not> fits_int a then None else if rest = [] then Some (Some a) else Some None
      else Some None)"

fun parse_arg :: "bench_opt list \<Rightarrow> byte list \<Rightarrow> bench_flags \<Rightarrow> bench_flags option" where
  "parse_arg [] arg f = Some f"
| "parse_arg (opt # opts) arg f =
     do { r \<leftarrow> sscanf_flag (opt_prefix opt) arg;
          case r of Some a \<Rightarrow> Some (opt_set opt a f) | None \<Rightarrow> parse_arg opts arg f }"

text \<open>The arguments after the name of the program.\<close>

fun BM_parse :: "byte list list \<Rightarrow> bench_flags \<Rightarrow> bench_flags option" where
  "BM_parse [] f = Some f"
| "BM_parse (arg # args) f = do { f \<leftarrow> parse_arg bench_opts arg f; BM_parse args f }"

section \<open>The specification of the index\<close>

definition binning_strategy :: "byte list list" where
  "binning_strategy = [chars ''scale=simple'', chars ''scale=linear'', chars ''equal-weight'']"

text \<open>\<open>binning_strategy[FLAGS_fastbit_strategy]\<close> is not checked.\<close>

definition index_spec :: "bench_flags \<Rightarrow> byte list option" where
  "index_spec f =
     (if FLAGS_fastbit_granule f \<noteq> 0
      then Some (snprintf 100 (chars ''<binning precision='' @
             dec_int (FLAGS_fastbit_granule_precision f) @ chars '' />''))
      else do {
        s \<leftarrow> (let k = FLAGS_fastbit_strategy f in
               if 0 \<le> k \<and> k < int (length binning_strategy) then Some (binning_strategy ! nat k) else None);
        Some (snprintf 100 (chars ''<binning nbins='' @ dec_int (FLAGS_fastbit_nbins f) @
               chars '' '' @ s @ chars '' />'')) })"

section \<open>The keys\<close>

text \<open>
  The loop that fills \<open>inputdata\<close>: the value is \<open>min + double(max - min) * draw / divisor\<close>.
\<close>

fun key_loop :: "bench_flags \<Rightarrow> nat \<Rightarrow> Random \<Rightarrow> (nat \<times> nat) list option" where
  "key_loop f 0 r = Some []"
| "key_loop f (Suc n) r =
     do { (r, draw, divisor) \<leftarrow>
            (if FLAGS_key_skewed f = 0
             then (let (r, x) = Random_Next r in Some (r, unat x, 2147483647))
             else do { (r, x) \<leftarrow> Random_Skewed r 20; Some (r, unat x, 2 ^ 20) });
          keys \<leftarrow> key_loop f n r;
          Some ((draw, divisor) # keys) }"

text \<open>\<open>reserve\<close> converts a negative number to a \<open>size_t\<close> beyond the maximum and throws.\<close>

definition bench_keys :: "bench_flags \<Rightarrow> (nat \<times> nat) list option" where
  "bench_keys f =
     (if FLAGS_n f < 0 then None else key_loop f (nat (FLAGS_n f)) (Random_new 301))"

text \<open>
  The key of a draw, \<open>min + double(max - min) * draw / divisor\<close>, which \<open>push_back\<close> converts to a
  \<open>float\<close>, and the bound of query \<open>i\<close>, \<open>min + double(max - min) * i / 10\<close>, converted in the call. Every
  integer here is converted to a \<open>double\<close> exactly.
\<close>

definition bench_key :: "bench_flags \<Rightarrow> nat \<times> nat \<Rightarrow> rat" where
  "bench_key f = (\<lambda>(draw, divisor).
     float32 (double (of_int (FLAGS_value_min f) +
       double (double (of_int (FLAGS_value_max f - FLAGS_value_min f) * of_nat draw) / of_nat divisor))))"

definition bench_bound :: "bench_flags \<Rightarrow> nat \<Rightarrow> rat" where
  "bench_bound f i =
     float32 (double (of_int (FLAGS_value_min f) +
       double (double (of_int (FLAGS_value_max f - FLAGS_value_min f) * of_nat i) / 10)))"

section \<open>Parsing\<close>

text \<open>No prefix is a prefix of another.\<close>

lemma opt_prefix_free: "prefix (opt_prefix a) (opt_prefix b @ s) \<Longrightarrow> a = b"
  by (cases a; cases b) (simp_all add: chars_def)

lemma sscanf_own: "fits_int k \<Longrightarrow> sscanf_flag p (p @ dec_int k) = Some (Some k)"
  using parse_dec_int [of "[]" k] by (simp add: sscanf_flag_def)

lemma sscanf_other: "a \<noteq> b \<Longrightarrow> sscanf_flag (opt_prefix a) (opt_prefix b @ s) = Some None"
  using opt_prefix_free [of a b s] by (auto simp: sscanf_flag_def)

lemma parse_arg_opt:
  "opt \<in> set opts \<Longrightarrow> fits_int k \<Longrightarrow> parse_arg opts (opt_prefix opt @ dec_int k) f = Some (opt_set opt k f)"
proof (induction opts)
  case (Cons a opts)
  then show ?case by (cases "a = opt") (simp_all add: sscanf_own sscanf_other)
qed simp

lemma all_opts: "opt \<in> set bench_opts"
  by (cases opt) (simp_all add: bench_opts_def)

lemma parse_arg_unknown:
  "(\<And>opt. \<not> prefix (opt_prefix opt) arg) \<Longrightarrow> parse_arg opts arg f = Some f"
  by (induction opts) (simp_all add: sscanf_flag_def)

text \<open>The loop never fails, as the draws never do.\<close>

lemma key_loop_ok:
  "valid_seed r \<Longrightarrow> \<exists>keys. key_loop f n r = Some keys \<and> length keys = n \<and>
      (\<forall>(draw, divisor) \<in> set keys. draw < divisor \<and> divisor \<le> 2 ^ 31)"
proof (induction n arbitrary: r)
  case (Suc n)
  show ?case
  proof (cases "FLAGS_key_skewed f = 0")
    case True
    obtain r' x where draw: "Random_Next r = (r', x)" by fastforce
    have "valid_seed r'" "x = rnd_seed r'"
      using valid_seed_Next [OF Suc.prems] snd_Next [of r] draw by simp_all
    with Suc.IH [of r'] True draw show ?thesis by (auto simp: valid_seed_def)
  next
    case False
    obtain r' x where x: "Random_Skewed r 20 = Some (r', x)" "unat x < 2 ^ 20" "valid_seed r'"
      using Skewed_range [of 20 r] Skewed_valid [OF Suc.prems, of 20] by auto
    from Suc.IH [OF x(3)] x False show ?thesis by auto
  qed
qed simp

lemma bench_keys_ok:
  assumes "0 \<le> FLAGS_n f"
  shows "\<exists>keys. bench_keys f = Some keys \<and> length keys = nat (FLAGS_n f) \<and>
     (\<forall>(draw, divisor) \<in> set keys. draw < divisor \<and> divisor \<le> 2 ^ 31)"
  using key_loop_ok [OF valid_seed_new, of f "nat (FLAGS_n f)" 301] assms by (simp add: bench_keys_def)

lemma bench_keys_None_iff: "bench_keys f = None \<longleftrightarrow> FLAGS_n f < 0"
  using bench_keys_ok [of f] by (cases "FLAGS_n f < 0") (auto simp: bench_keys_def)

section \<open>The range of the keys\<close>

text \<open>No option sets the bounds of the value space.\<close>

lemma parse_arg_values:
  "parse_arg opts arg f = Some f' \<Longrightarrow>
     FLAGS_value_min f' = FLAGS_value_min f \<and> FLAGS_value_max f' = FLAGS_value_max f"
proof (induction opts)
  case (Cons opt opts)
  have "FLAGS_value_min (opt_set opt a f) = FLAGS_value_min f \<and>
      FLAGS_value_max (opt_set opt a f) = FLAGS_value_max f" for a
    by (cases opt) simp_all
  with Cons show ?case by (auto simp: bind_Some_iff split: option.splits)
qed simp

lemma BM_parse_values:
  "BM_parse args f = Some f' \<Longrightarrow>
     FLAGS_value_min f' = FLAGS_value_min f \<and> FLAGS_value_max f' = FLAGS_value_max f"
proof (induction args arbitrary: f)
  case (Cons arg args)
  then show ?case by (auto simp: bind_Some_iff dest!: parse_arg_values)
qed simp

text \<open>
  A fraction of the width of a value space whose bounds are small enough to be exact, added to the
  lower bound, is rounded to a number of the space: each of the four roundings keeps the bounds.
\<close>

lemma scaled_range:
  assumes width: "0 \<le> hi - lo" "hi - lo \<le> 2 ^ 20" and small: "\<bar>lo\<bar> \<le> 2 ^ 24" "\<bar>hi\<bar> \<le> 2 ^ 24"
    and frac: "num \<le> den" "0 < den" "den \<le> 2 ^ 31"
  shows "let k = float32 (double (of_int lo + double (double (of_int (hi - lo) * of_nat num) / of_nat den)))
    in of_int lo \<le> k \<and> k \<le> of_int hi"
proof -
  let ?d = "of_int (hi - lo) :: rat" and ?D = "of_nat den :: rat"
  have p: "0 < (53 :: nat)" "0 < (24 :: nat)" by simp_all
  have ex53: "double (of_int n) = of_int n" if "\<bar>n\<bar> \<le> 2 ^ 53" for n
    using that by (intro fl_of_int) simp_all
  have ex24: "float32 (of_int n) = of_int n" if "\<bar>n\<bar> \<le> 2 ^ 24" for n
    using that by (intro fl_of_int) simp_all
  have lo_hi: "double (of_int lo) = of_int lo" "double (of_int hi) = of_int hi"
    "double ?d = ?d" "double 0 = 0"
    using small width ex53 [of "hi - lo"] by (simp_all add: ex53)
  have "(hi - lo) * int den \<le> 2 ^ 20 * 2 ^ 31"
    using width frac(3) by (intro mult_mono) (auto simp: of_nat_le_iff)
  then have "double (of_int ((hi - lo) * int den)) = of_int ((hi - lo) * int den)"
    using width(1) by (intro ex53) (simp add: abs_mult)
  then have prod: "double (?d * ?D) = ?d * ?D" by simp
  have d0: "0 \<le> ?d" using width(1) by (simp only: of_int_0_le_iff)
  let ?t1 = "double (?d * of_nat num)"
  have t1: "0 \<le> ?t1" "?t1 \<le> ?d * ?D"
    using d0 frac(1) by (intro le_fl fl_le prod mult_left_mono; simp)+
  let ?t2 = "double (?t1 / ?D)"
  have t2: "0 \<le> ?t2" "?t2 \<le> ?d"
    using t1 frac(2) lo_hi(3) by (auto intro!: le_fl fl_le simp: pos_divide_le_eq)
  let ?t3 = "double (of_int lo + ?t2)"
  have t3: "of_int lo \<le> ?t3" "?t3 \<le> of_int hi"
    using t2 lo_hi(1,2) by (auto intro!: le_fl fl_le)
  then have "of_int lo \<le> float32 ?t3" "float32 ?t3 \<le> of_int hi"
    using ex24 [OF small(1)] ex24 [OF small(2)] by (auto intro!: le_fl fl_le)
  then show ?thesis by simp
qed

lemma bench_space: "BM_parse args bench_defaults = Some f \<Longrightarrow> FLAGS_value_min f = 100 \<and> FLAGS_value_max f = 1000"
  using BM_parse_values [of args bench_defaults f] by (simp add: bench_defaults_def)

lemma bench_rows:
  assumes "BM_parse args bench_defaults = Some f" "bench_keys f = Some keys"
  shows "length keys = nat (FLAGS_n f) \<and> (\<forall>d \<in> set keys. 100 \<le> bench_key f d \<and> bench_key f d \<le> 1000)"
proof -
  have v: "FLAGS_value_min f = 100" "FLAGS_value_max f = 1000" using bench_space [OF assms(1)] by simp_all
  have "100 \<le> bench_key f (a, b) \<and> bench_key f (a, b) \<le> 1000" if "a < b" "b \<le> 2 ^ 31" for a b
    using scaled_range [of 1000 100 a b] that
    by (cases "a \<le> b \<and> 0 < b") (auto simp: bench_key_def v Let_def)
  moreover have "0 \<le> FLAGS_n f" using assms(2) bench_keys_None_iff [of f] by (cases "FLAGS_n f < 0") auto
  ultimately show ?thesis using bench_keys_ok [of f] assms(2) by fastforce
qed

lemma bench_bound_mono:
  "BM_parse args bench_defaults = Some f \<Longrightarrow> i \<le> j \<Longrightarrow> bench_bound f i \<le> bench_bound f j"
  by (auto simp: bench_bound_def Let_def dest!: bench_space intro!: fl_mono divide_right_mono)

lemma bench_bound_ends:
  assumes "BM_parse args bench_defaults = Some f"
  shows "bench_bound f 0 = 100 \<and> bench_bound f 10 = 1000"
proof -
  have "double 100 = 100" "double 900 = 900" "double 1000 = 1000" "double 9000 = 9000"
    "float32 100 = 100" "float32 1000 = 1000"
    using fl_of_int [of 100 53] fl_of_int [of 900 53] fl_of_int [of 1000 53] fl_of_int [of 9000 53]
      fl_of_int [of 100 24] fl_of_int [of 1000 24] by simp_all
  then show ?thesis using bench_space [OF assms] by (simp add: bench_bound_def)
qed

section \<open>Properties\<close>



text \<open>
  The specification of the index always fits its buffer of 100 characters; without granule mapping
  it exists for the three strategies only: any other number on the command line is an access
  outside the table.
\<close>

lemma bench_index_spec:
  assumes "fits_int (FLAGS_fastbit_nbins f)" "fits_int (FLAGS_fastbit_granule_precision f)"
  shows "index_spec f =
    (if FLAGS_fastbit_granule f \<noteq> 0
     then Some (chars ''<binning precision='' @ dec_int (FLAGS_fastbit_granule_precision f) @ chars '' />'')
     else if FLAGS_fastbit_strategy f \<in> {0, 1, 2}
     then Some (chars ''<binning nbins='' @ dec_int (FLAGS_fastbit_nbins f) @ chars '' '' @
            binning_strategy ! nat (FLAGS_fastbit_strategy f) @ chars '' />'')
     else None)"
proof -
  have short: "snprintf 100 s = s" if "length s < 100" for s using that by (simp add: snprintf_def)
  have len: "length (dec_int k) \<le> 11" if "fits_int k" for k
    using length_dec_int [of "word_of_int k"] that
    by (simp add: fits_int_def signed_of_int signed_take_bit_int_eq_self)
  have strat: "length s \<le> 12" if "s \<in> set binning_strategy" for s
    using that by (auto simp: binning_strategy_def)
  have in3: "0 \<le> k \<and> k < int (length binning_strategy) \<longleftrightarrow> k \<in> {0, 1, 2}" for k
    by (auto simp: binning_strategy_def)
  have nth: "length (binning_strategy ! nat k) \<le> 12" if "k \<in> {0, 1, 2}" for k
    using in3 [of k] that by (intro strat nth_mem) auto
  have "snprintf 100 (chars ''<binning precision='' @ dec_int (FLAGS_fastbit_granule_precision f) @ chars '' />'') =
      chars ''<binning precision='' @ dec_int (FLAGS_fastbit_granule_precision f) @ chars '' />''"
    using len [OF assms(2)] by (intro short) simp
  moreover have "snprintf 100 (chars ''<binning nbins='' @ dec_int (FLAGS_fastbit_nbins f) @ chars '' '' @ t @ chars '' />'') =
      chars ''<binning nbins='' @ dec_int (FLAGS_fastbit_nbins f) @ chars '' '' @ t @ chars '' />''"
    if "length t \<le> 12" for t
    using len [OF assms(1)] that by (intro short) simp
  ultimately show ?thesis
    using nth [of "FLAGS_fastbit_strategy f"] unfolding index_spec_def in3 Let_def
    by (simp only: bind.bind_lunit bind.bind_lzero if_True if_False split: if_split) simp
qed

lemma bench_index_spec_witness: "index_spec (bench_defaults\<lparr>FLAGS_fastbit_strategy := 3\<rparr>) = None"
  using bench_index_spec [of "bench_defaults\<lparr>FLAGS_fastbit_strategy := 3\<rparr>"]
  by (simp add: bench_defaults_def fits_int_def)

text \<open>
  The keys: as many as asked for unless that is negative, which throws; every draw is below its
  divisor, so that the exact value of a key lies from the lower bound of the value space up to,
  and not including, the upper one.
\<close>

lemma bench_keys_in_range:
  "if FLAGS_n f < 0 then bench_keys f = None
   else \<exists>keys. bench_keys f = Some keys \<and> length keys = nat (FLAGS_n f) \<and>
     (\<forall>(draw, divisor) \<in> set keys. draw < divisor \<and> divisor \<le> 2 ^ 31)"
  using bench_keys_ok [of f] by (simp add: bench_keys_None_iff)

lemma bench_keys_in_range_witness:
  "\<exists>keys. bench_keys bench_defaults = Some keys \<and> length keys = 100"
  using bench_keys_in_range [of bench_defaults] by (auto simp: bench_defaults_def)

text \<open>The largest draw gives the upper bound itself: the quotient below it is rounded up to it.\<close>

lemma bench_key_top: "bench_key bench_defaults (2147483646, 2147483647) = 1000"
proof -
  have prod: "double (900 * 2147483646) = 1932735281400"
    using fl_of_int [of "900 * 2147483646" 53] by simp
  have quot: "double (1932735281400 / 2147483647) = 483183820575 / 536870912"
    using fl_eval [of 9 "1932735281400 / 2147483647" "483183820575 * 2 ^ 14" 53]
    by (simp add: power_int_def power_one_over)
  have sum: "double (536870911775 / 536870912) = 536870911775 / 536870912"
    using fl_exact [of "536870911775 / 536870912" 536870911775 "- 29" 53] by (simp add: power_int_def power_one_over)
  have "float32 (536870911775 / 536870912) = 1000"
    using fl_eval [of 9 "536870911775 / 536870912" "1000 * 2 ^ 14" 24] by (simp add: power_int_def power_one_over)
  then have "float32 (double (100 + double (1932735281400 / 2147483647))) = 1000"
    unfolding quot by (simp add: sum)
  then show ?thesis using prod by (simp add: bench_key_def bench_defaults_def)
qed

text \<open>
  C30: whatever the command line, every key lies in the value space \<open>[100, 1000]\<close> after all roundings, and
  so does the bound of every query; the bounds never decrease, from exactly 100 to exactly 1000; the
  upper end is attained by a key too, as the largest draw is rounded up to it.
\<close>

theorem bench_keys_in_space:
  assumes "BM_parse args bench_defaults = Some f" "bench_keys f = Some keys"
  shows "(\<forall>d \<in> set keys. 100 \<le> bench_key f d \<and> bench_key f d \<le> 1000) \<and>
    (\<forall>i \<le> 10. 100 \<le> bench_bound f i \<and> bench_bound f i \<le> 1000) \<and>
    bench_bound f 0 = 100 \<and> bench_bound f 10 = 1000 \<and>
    (\<forall>i j. i \<le> j \<longrightarrow> bench_bound f i \<le> bench_bound f j) \<and>
    bench_key f (2147483646, 2147483647) = 1000"
proof -
  have v: "FLAGS_value_min f = 100" "FLAGS_value_max f = 1000"
    using bench_space [OF assms(1)] by simp_all
  have "\<forall>d \<in> set keys. 100 \<le> bench_key f d \<and> bench_key f d \<le> 1000" using bench_rows [OF assms] by simp
  moreover have "100 \<le> bench_bound f i \<and> bench_bound f i \<le> 1000" if "i \<le> 10" for i
    using scaled_range [of 1000 100 i 10] that by (simp add: bench_bound_def v Let_def)
  moreover have "bench_key f (2147483646, 2147483647) = 1000"
    using bench_key_top by (simp add: bench_key_def v bench_defaults_def)
  ultimately show ?thesis using bench_bound_ends [OF assms(1)] bench_bound_mono [OF assms(1)] by blast
qed

theorem bench_keys_in_space_witness:
  "\<exists>keys. bench_keys bench_defaults = Some keys \<and> length keys = 100 \<and>
     (\<forall>d \<in> set keys. bench_key bench_defaults d \<le> 1000)"
proof -
  obtain keys where keys: "bench_keys bench_defaults = Some keys" "length keys = 100"
    using bench_keys_ok [of bench_defaults] by (auto simp: bench_defaults_def)
  have "BM_parse [] bench_defaults = Some bench_defaults" by simp
  from bench_keys_in_space [OF this keys(1)] keys show ?thesis by auto
qed

end
