(* ===== verification/C2_BenchRun.thy ===== *)
theory C2_BenchRun
  imports C2_Bench C2_Builder C2_Env C2_File C2_Harness
begin

text \<open>
  The run of the index benchmark (\<open>c2_index_bench.cc\<close>) and the two \<open>TEST_\<close> templates of
  \<open>IndexBuilder\<close> that it calls. FastBit is the record \<open>fastbit\<close> of the functions that the code calls,
  and the clock is the answer of \<open>gettimeofday\<close>. Keys and bounds are the rational numbers that the
  code's floats stand for.
\<close>

section \<open>The library\<close>

text \<open>
  The column of the options, to which the builder holds a pointer: the directory of its partition,
  its name and its index specification.
\<close>

record ibis_column =
  col_dir :: "byte list"
  col_name :: "byte list"
  col_spec :: "byte list"

text \<open>
  A granule map is a \<open>'g\<close>. Indexes are made of an array in memory. A query looks at the bins, with
  their boundaries, and at what the world holds of the base data; it answers the number of hits
  and a bit vector, and may change the world.
\<close>

record ('bv, 'g, 'w) fastbit =
  fb_bin :: "'bv ibis_bin"
  fb_mapGranules :: "ibis_column \<Rightarrow> 'bv ibis_bin \<Rightarrow> rat list \<Rightarrow> 'g"
  fb_convertGranules :: "ibis_column \<Rightarrow> 'g \<Rightarrow> 'bv ibis_bin \<Rightarrow> 'bv ibis_bin"
  fb_setBoundaries :: "ibis_column \<Rightarrow> rat list \<Rightarrow> 'bv ibis_bin \<Rightarrow> 'bv ibis_bin"
  fb_binning :: "ibis_column \<Rightarrow> rat list \<Rightarrow> 'bv ibis_bin \<Rightarrow> 'bv ibis_bin"
  fb_evaluate :: "ibis_column \<Rightarrow> rat \<Rightarrow> 'bv ibis_bin \<Rightarrow> 'w \<Rightarrow> (int \<times> bool list) \<times> 'w"
  fb_print :: "'bv ibis_bin \<Rightarrow> byte list"
  fb_getSerialSize :: "'bv \<Rightarrow> u32"
  fb_bytes :: "'bv \<Rightarrow> u32"
  fb_cnt :: "'bv \<Rightarrow> u32"

section \<open>Reports\<close>

text \<open>
  What is written to \<open>stderr\<close>: text, a line, or a line with a time in the middle, which is a number of
  microseconds and is printed as seconds.
\<close>

datatype report =
    Text "byte list"
  | Line "byte list"
  | Timed "byte list" u64 "byte list"

text \<open>
  \<open>%.3f\<close> of \<open>double(d) / 1000.0 / 1000.0\<close>: the value of the double, rounded to thousandths.
\<close>

definition three_digits :: "nat \<Rightarrow> byte list" where
  "three_digits n = [word_of_nat (48 + n div 100), word_of_nat (48 + n div 10 mod 10), word_of_nat (48 + n mod 10)]"

definition seconds :: "u64 \<Rightarrow> byte list" where
  "seconds d =
     (let x = double (double (double (of_nat (unat d)) / 1000) / 1000);
          k = nat (round_half_even (x * 1000))
      in dec_int (int (k div 1000)) @ chars ''.'' @ three_digits (k mod 1000))"

fun render :: "report \<Rightarrow> byte list" where
  "render (Text s) = s"
| "render (Line s) = s @ [10]"
| "render (Timed a d b) = a @ seconds d @ b @ [10]"

definition put_reports :: "report list \<Rightarrow> 'w process \<Rightarrow> 'w process" where
  "put_reports out p = put_err (concat (map render out)) p"

definition now :: "('w \<Rightarrow> (int \<times> int) \<times> 'w) \<Rightarrow> 'w \<Rightarrow> u64 \<times> 'w" where
  "now gettimeofday w = (let ((tv_sec, tv_usec), w) = gettimeofday w in (CurrentMicros tv_sec tv_usec, w))"

section \<open>The \<open>TEST_\<close> templates\<close>

definition TEST_GranuleBuild :: "('w \<Rightarrow> (int \<times> int) \<times> 'w) \<Rightarrow> ('bv, 'g, 'w) fastbit \<Rightarrow> ibis_column \<Rightarrow>
    rat list \<Rightarrow> ('bv, 'c) IndexBuilder \<Rightarrow> 'w \<Rightarrow> report list \<times> ('bv, 'c) IndexBuilder \<times> 'w" where
  "TEST_GranuleBuild gettimeofday fb col arr b w =
     (let (a1, w) = now gettimeofday w;
          gmap = fb_mapGranules fb col (ib_bin b) arr;
          (a2, w) = now gettimeofday w;
          log = [Timed (chars ''== Map granule: '') (a2 - a1) (chars '' s'')];
          b = b\<lparr>ib_bin := fb_convertGranules fb col gmap (ib_bin b)\<rparr>;
          b = b\<lparr>ib_bin := (ib_bin b)\<lparr>bin_nrows := word_of_nat (length arr)\<rparr>\<rparr>
      in (log, b, w))"

definition TEST_Build :: "('w \<Rightarrow> (int \<times> int) \<times> 'w) \<Rightarrow> ('bv, 'g, 'w) fastbit \<Rightarrow> ibis_column \<Rightarrow>
    rat list \<Rightarrow> ('bv, 'c) IndexBuilder \<Rightarrow> 'w \<Rightarrow> report list \<times> ('bv, 'c) IndexBuilder \<times> 'w" where
  "TEST_Build gettimeofday fb col arr b w =
     (let (a1, w) = now gettimeofday w;
          b = b\<lparr>ib_bin := fb_setBoundaries fb col arr (ib_bin b)\<rparr>;
          (a2, w) = now gettimeofday w;
          log = [Timed (chars ''== Make bounds: '') (a2 - a1) (chars '' s'')];
          b = b\<lparr>ib_bin := fb_binning fb col arr (ib_bin b)\<rparr>
      in (log, b, w))"

section \<open>\<open>IndexBench\<close>\<close>

text \<open>There is one column, at address 0; the builder holds a copy of the pointer in the options.\<close>

record 'bv IndexBench =
  ixb_opts :: "nat IndexBuilderOptions"
  ixb_col :: ibis_column
  ixb_bu :: "('bv, nat) IndexBuilder"
  ixb_tmpdir :: "byte list"

text \<open>
  The constructor. \<open>IO::Default()\<close> is the wrapper around the unbuffered \<open>IO\<close> (\<open>C2_Singleton\<close>); both
  statuses are dropped.
\<close>

definition IndexBench_new :: "platform \<Rightarrow> 'w os \<Rightarrow> ('bv, 'g, 'w) fastbit \<Rightarrow> 'w \<Rightarrow> ('bv IndexBench \<times> 'w) option" where
  "IndexBench_new pf os fb w =
     do { let io = PosixLibcBufferedIOWrapper PosixIO;
          let (st, tmpdir, w) = IO_GetTestDirectory os io w;
          let tmpdir = tmpdir @ chars ''/index_builder_test'';
          let (st, w) = IO_CreateDir os io tmpdir w;
          let col = \<lparr>col_dir = tmpdir, col_name = chars ''var0'', col_spec = []\<rparr>;
          let opts = IndexBuilderOptions_new\<lparr>ibis_col := Some 0\<rparr>;
          bu \<leftarrow> IndexBuilder_new pf (fb_bin fb) opts None;
          Some (\<lparr>ixb_opts = opts, ixb_col = col, ixb_bu = bu, ixb_tmpdir = tmpdir\<rparr>, w) }"

definition IndexBench_delete :: "'w os \<Rightarrow> 'bv IndexBench \<Rightarrow> 'w \<Rightarrow> 'w" where
  "IndexBench_delete os b w = IndexBuilder_delete os (ixb_bu b) w"

text \<open>\<open>for (; i < bu->NumBitVectors(); i++) fprintf(stderr, "%d", query(i))\<close>, \<open>n\<close> rounds to go.\<close>

fun bitmap_lines :: "(nat \<Rightarrow> u32 option) \<Rightarrow> nat \<Rightarrow> nat \<Rightarrow> report list option" where
  "bitmap_lines query i 0 = Some []"
| "bitmap_lines query i (Suc n) =
     do { v \<leftarrow> query i;
          rest \<leftarrow> bitmap_lines query (i + 1) n;
          Some (Line (dec_int (sint v)) # rest) }"

definition IndexBench_Build :: "platform \<Rightarrow> ('w \<Rightarrow> (int \<times> int) \<times> 'w) \<Rightarrow> ('bv, 'g, 'w) fastbit \<Rightarrow>
    bench_flags \<Rightarrow> rat list \<Rightarrow> 'bv IndexBench \<Rightarrow> 'w \<Rightarrow> (report list \<times> 'bv IndexBench \<times> 'w) option" where
  "IndexBench_Build pf gettimeofday fb f inputdata b w =
     do { let (t0, w) = now gettimeofday w;
          spec \<leftarrow> index_spec f;
          let b = b\<lparr>ixb_col := (ixb_col b)\<lparr>col_spec := spec\<rparr>\<rparr>;
          let (log, bu, w) =
            (if FLAGS_fastbit_granule f \<noteq> 0
             then TEST_GranuleBuild gettimeofday fb (ixb_col b) inputdata (ixb_bu b) w
             else TEST_Build gettimeofday fb (ixb_col b) inputdata (ixb_bu b) w);
          let (t, w) = now gettimeofday w;
          let d = t - t0;
          let log = log @ [Text (fb_print fb (ib_bin bu))];
          IndexBuilder_Finish pf bu;
          let log = log @ [Timed (chars ''== Index built in '') d (chars '' s''),
            Line (chars ''== Spec: '' @ spec),
            Line (chars ''== Disk storage size: '' @
              dec_int (uint (DiskStorageUsage (fb_getSerialSize fb) bu)) @ chars '' B'')];
          debug \<leftarrow>
            (if NDEBUG pf then Some []
             else do {
               sizes \<leftarrow> bitmap_lines (MemoryUsage_at (fb_bytes fb) bu) 0 (unat (NumBitVectors bu));
               keys \<leftarrow> bitmap_lines (NumKeys (fb_cnt fb) bu) 0 (unat (NumBitVectors bu));
               Some ([Line (chars ''== Memory: '' @
                        dec_int (uint (MemoryUsage (fb_bytes fb) bu)) @ chars '' B''),
                      Line (chars ''== Per-bitmap sizes:'')] @ sizes @ [Line (chars ''== Keys:'')] @ keys) });
          Some (log @ debug, b\<lparr>ixb_bu := bu\<rparr>, w) }"

text \<open>The loop over \<open>results\<close> from bit \<open>i\<close>; a hit that is no hit aborts.\<close>

fun check_hits :: "rat list \<Rightarrow> rat \<Rightarrow> bool list \<Rightarrow> nat \<Rightarrow> unit option" where
  "check_hits inputdata a [] i = Some ()"
| "check_hits inputdata a (r # rs) i =
     do { bad \<leftarrow> (if r then (if i < length inputdata then Some (inputdata ! i \<ge> a) else None)
                 else Some False);
          if bad then None else check_hits inputdata a rs (i + 1) }"

definition IndexBench_LessThan :: "platform \<Rightarrow> ('w \<Rightarrow> (int \<times> int) \<times> 'w) \<Rightarrow> ('bv, 'g, 'w) fastbit \<Rightarrow>
    rat list \<Rightarrow> rat \<Rightarrow> 'bv IndexBench \<Rightarrow> 'w \<Rightarrow> (report list \<times> 'w) option" where
  "IndexBench_LessThan pf gettimeofday fb inputdata a b w =
     do { let (t0, w) = now gettimeofday w;
          let ((h, results), w) = fb_evaluate fb (ixb_col b) a (ib_bin (ixb_bu b)) w;
          let (t, w) = now gettimeofday w;
          let d = t - t0;
          let log = [Timed (chars ''== Query evaluated in '') d (chars '' s: hits='' @ dec_int h)];
          (if NDEBUG pf then Some () else check_hits inputdata a results 0);
          Some (log, w) }"

section \<open>\<open>BM_Main\<close>\<close>

fun BM_queries :: "(rat \<Rightarrow> 'w \<Rightarrow> (report list \<times> 'w) option) \<Rightarrow> rat list \<Rightarrow> 'w \<Rightarrow> (report list \<times> 'w) option" where
  "BM_queries query [] w = Some ([], w)"
| "BM_queries query (a # bounds) w =
     do { (log, w) \<leftarrow> query a w;
          (log', w) \<leftarrow> BM_queries query bounds w;
          Some (log @ log', w) }"

definition bench_head :: "bench_flags \<Rightarrow> report list" where
  "bench_head f =
     [Line (chars ''== Num rows: '' @ dec_int (FLAGS_n f)),
      Line (chars ''== Value space: ['' @ dec_int (FLAGS_value_min f) @ chars '', '' @
        dec_int (FLAGS_value_max f) @ chars '']''),
      Line (chars ''== Skewed: '' @ dec_int (FLAGS_key_skewed f))]"

definition BM_Main :: "platform \<Rightarrow> 'w os \<Rightarrow> ('w \<Rightarrow> (int \<times> int) \<times> 'w) \<Rightarrow> ('bv, 'g, 'w) fastbit \<Rightarrow>
    byte list list \<Rightarrow> 'w \<Rightarrow> (report list \<times> 'w) option" where
  "BM_Main pf os gettimeofday fb args w =
     do { f \<leftarrow> BM_parse args bench_defaults;
          let log = bench_head f;
          keys \<leftarrow> bench_keys f;
          let inputdata = map (bench_key f) keys;
          (b, w) \<leftarrow> IndexBench_new pf os fb w;
          (log1, b, w) \<leftarrow> IndexBench_Build pf gettimeofday fb f inputdata b w;
          (log2, w) \<leftarrow> BM_queries (\<lambda>a. IndexBench_LessThan pf gettimeofday fb inputdata a b)
                       (map (bench_bound f) [0..<11]) w;
          Some (log @ log1 @ log2, IndexBench_delete os b w) }"

text \<open>\<open>main\<close>: the arguments are those after the name of the program.\<close>

definition index_bench_main :: "platform \<Rightarrow> 'w os \<Rightarrow> ('w \<Rightarrow> (int \<times> int) \<times> 'w) \<Rightarrow> ('bv, 'g, 'w) fastbit \<Rightarrow>
    byte list list \<Rightarrow> 'w process \<Rightarrow> (int \<times> 'w process) option" where
  "index_bench_main pf os gettimeofday fb args p =
     do { (out, w) \<leftarrow> BM_Main pf os gettimeofday fb args (pr_world p);
          Some (0, put_reports out (p\<lparr>pr_world := w\<rparr>)) }"

section \<open>What the library promises\<close>

text \<open>The lists of an index have one entry for each bit vector.\<close>

definition sizes_ok :: "'bv ibis_bin \<Rightarrow> bool" where
  "sizes_ok bin \<longleftrightarrow> unat (bin_nobs bin) = length (bin_bits bin) \<and> length (bin_bounds bin) = length (bin_bits bin) \<and>
     length (bin_minval bin) = length (bin_bits bin) \<and> length (bin_maxval bin) = length (bin_bits bin)"

text \<open>The two indexes that the code builds of an array.\<close>

definition binned :: "('bv, 'g, 'w) fastbit \<Rightarrow> ibis_column \<Rightarrow> rat list \<Rightarrow> 'bv ibis_bin" where
  "binned fb col arr = fb_binning fb col arr (fb_setBoundaries fb col arr (fb_bin fb))"

definition granuled :: "('bv, 'g, 'w) fastbit \<Rightarrow> ibis_column \<Rightarrow> rat list \<Rightarrow> 'bv ibis_bin" where
  "granuled fb col arr =
     (fb_convertGranules fb col (fb_mapGranules fb col (fb_bin fb) arr) (fb_bin fb))
       \<lparr>bin_nrows := word_of_nat (length arr)\<rparr>"

text \<open>
  A new \<open>ibis::bin\<close> is empty; an index that has been built has consistent sizes; and the bit vector of
  a query \<open>< a\<close> has a bit for rows of the data only, none for a row that is \<open>>= a\<close>.
\<close>

definition new_law :: "('bv, 'g, 'w) fastbit \<Rightarrow> bool" where
  "new_law fb \<longleftrightarrow> bin_nobs (fb_bin fb) = 0 \<and> bin_offset64 (fb_bin fb) = [] \<and>
     bin_bits (fb_bin fb) = [] \<and> bin_nrows (fb_bin fb) = 0"

definition build_law :: "('bv, 'g, 'w) fastbit \<Rightarrow> bool" where
  "build_law fb \<longleftrightarrow> (\<forall>col arr. sizes_ok (binned fb col arr) \<and> sizes_ok (granuled fb col arr))"

definition query_law :: "('bv, 'g, 'w) fastbit \<Rightarrow> bool" where
  "query_law fb \<longleftrightarrow>
     (\<forall>col arr bin a w i. bin \<in> {binned fb col arr, granuled fb col arr} \<and>
        i < length (snd (fst (fb_evaluate fb col a bin w))) \<and> snd (fst (fb_evaluate fb col a bin w)) ! i \<longrightarrow>
        i < length arr \<and> arr ! i < a)"

section \<open>Every step on its own\<close>

lemma now_obtain: obtains t w' where "now gettimeofday w = (t, w')"
  by fastforce

lemma TEST_GranuleBuild_eq:
  "\<exists>d w'. TEST_GranuleBuild gettimeofday fb col arr b w =
     ([Timed (chars ''== Map granule: '') d (chars '' s'')],
      b\<lparr>ib_bin := (fb_convertGranules fb col (fb_mapGranules fb col (ib_bin b) arr) (ib_bin b))
        \<lparr>bin_nrows := word_of_nat (length arr)\<rparr>\<rparr>, w')"
  by (simp add: TEST_GranuleBuild_def Let_def split: prod.split)

lemma TEST_Build_eq:
  "\<exists>d w'. TEST_Build gettimeofday fb col arr b w =
     ([Timed (chars ''== Make bounds: '') d (chars '' s'')],
      b\<lparr>ib_bin := fb_binning fb col arr (fb_setBoundaries fb col arr (ib_bin b))\<rparr>, w')"
  by (simp add: TEST_Build_def Let_def split: prod.split)

lemma bitmap_lines_eq:
  "\<forall>j. i \<le> j \<and> j < i + n \<longrightarrow> query j = Some (sz j) \<Longrightarrow>
   bitmap_lines query i n = Some (map (\<lambda>j. Line (dec_int (sint (sz j)))) [i..<i + n])"
proof (induction n arbitrary: i)
  case (Suc n)
  have "bitmap_lines query (i + 1) n = Some (map (\<lambda>j. Line (dec_int (sint (sz j)))) [i + 1..<i + 1 + n])"
    by (rule Suc.IH) (use Suc.prems in auto)
  moreover have "query i = Some (sz i)" using Suc.prems by simp
  ultimately show ?case by (cases "n = 0") (simp_all add: upt_conv_Cons)
qed simp

lemma check_hits_ok:
  "(\<forall>j < length rs. rs ! j \<longrightarrow> i + j < length arr \<and> arr ! (i + j) < a) \<Longrightarrow>
   check_hits arr a rs i = Some ()"
proof (induction rs arbitrary: i)
  case (Cons r rs)
  have "check_hits arr a rs (i + 1) = Some ()"
    by (rule Cons.IH) (use Cons.prems in force)
  with Cons.prems show ?case by auto
qed simp

text \<open>The size of a bit vector, and the number of its bits, null ones having none.\<close>

definition bits_num :: "('bv \<Rightarrow> u32) \<Rightarrow> 'bv ibis_bin \<Rightarrow> nat \<Rightarrow> u32" where
  "bits_num sz bin i = (case bin_bits bin ! i of None \<Rightarrow> 0 | Some v \<Rightarrow> sz v)"

lemma bits_queries:
  "i < length (bin_bits (ib_bin b)) \<Longrightarrow>
   MemoryUsage_at sz b i = Some (bits_num sz (ib_bin b) i) \<and>
   NumKeys sz b i = Some (bits_num sz (ib_bin b) i)"
  by (cases "bin_bits (ib_bin b) ! i")
    (simp_all add: MemoryUsage_at_def NumKeys_def bits_at_def bits_num_def)

lemma MemoryUsage_sum:
  "MemoryUsage sz b = (\<Sum>i\<leftarrow>[0..<length (bin_bits (ib_bin b))]. bits_num sz (ib_bin b) i)"
proof -
  have loop: "usage_loop sz bs r = r + (\<Sum>b\<leftarrow>bs. case b of None \<Rightarrow> 0 | Some v \<Rightarrow> sz v)" for bs r
    by (induction bs arbitrary: r) (auto simp: algebra_simps split: option.split)
  have "map (bits_num sz (ib_bin b)) [0..<length (bin_bits (ib_bin b))] =
      map (\<lambda>b. case b of None \<Rightarrow> 0 | Some v \<Rightarrow> sz v) (bin_bits (ib_bin b))"
    by (rule nth_equalityI) (simp_all add: bits_num_def)
  then show ?thesis by (simp add: MemoryUsage_def loop)
qed

lemma Finish_sizes_ok:
  "IndexBuilder_Finish pf b = (if NDEBUG pf \<or> sizes_ok (ib_bin b) then Some SOk else None)"
  by (auto simp: IndexBuilder_Finish_def c_assert_def Let_def sizes_ok_def)

lemma IndexBench_new_ok:
  assumes "new_law fb"
  shows "\<exists>b w'. IndexBench_new pf os fb w = Some (b, w') \<and> ib_bin (ixb_bu b) = fb_bin fb \<and>
    col_name (ixb_col b) = chars ''var0''"
  using assms by (simp add: IndexBench_new_def IndexBuilder_new_def new_law_def c_assert_def Let_def
      split: prod.split)

text \<open>The index that \<open>Build\<close> makes in a new \<open>IndexBench\<close>.\<close>

definition built :: "('bv, 'g, 'w) fastbit \<Rightarrow> bench_flags \<Rightarrow> ibis_column \<Rightarrow> rat list \<Rightarrow> 'bv ibis_bin" where
  "built fb f col arr =
     (if FLAGS_fastbit_granule f \<noteq> 0 then granuled fb col arr else binned fb col arr)"

text \<open>The lines that a debug build writes about a builder.\<close>

definition debug_lines :: "('bv, 'g, 'w) fastbit \<Rightarrow> ('bv, 'c) IndexBuilder \<Rightarrow> report list" where
  "debug_lines fb bu =
     (let n = length (bin_bits (ib_bin bu)) in
      [Line (chars ''== Memory: '' @ dec_int (uint (MemoryUsage (fb_bytes fb) bu)) @ chars '' B''),
       Line (chars ''== Per-bitmap sizes:'')] @
      map (\<lambda>i. Line (dec_int (sint (bits_num (fb_bytes fb) (ib_bin bu) i)))) [0..<n] @
      [Line (chars ''== Keys:'')] @
      map (\<lambda>i. Line (dec_int (sint (bits_num (fb_cnt fb) (ib_bin bu) i)))) [0..<n])"

lemma bitmap_lines_ok:
  assumes "sizes_ok (ib_bin bu)"
  shows "bitmap_lines (MemoryUsage_at sz bu) 0 (unat (NumBitVectors bu)) =
      Some (map (\<lambda>i. Line (dec_int (sint (bits_num sz (ib_bin bu) i)))) [0..<length (bin_bits (ib_bin bu))])"
    and "bitmap_lines (NumKeys sz bu) 0 (unat (NumBitVectors bu)) =
      Some (map (\<lambda>i. Line (dec_int (sint (bits_num sz (ib_bin bu) i)))) [0..<length (bin_bits (ib_bin bu))])"
proof -
  have n: "unat (NumBitVectors bu) = length (bin_bits (ib_bin bu))"
    using assms by (simp add: sizes_ok_def NumBitVectors_def)
  show "bitmap_lines (MemoryUsage_at sz bu) 0 (unat (NumBitVectors bu)) =
      Some (map (\<lambda>i. Line (dec_int (sint (bits_num sz (ib_bin bu) i)))) [0..<length (bin_bits (ib_bin bu))])"
    "bitmap_lines (NumKeys sz bu) 0 (unat (NumBitVectors bu)) =
      Some (map (\<lambda>i. Line (dec_int (sint (bits_num sz (ib_bin bu) i)))) [0..<length (bin_bits (ib_bin bu))])"
    using bitmap_lines_eq [of 0 "unat (NumBitVectors bu)"] by (simp_all add: bits_queries n)
qed

lemma IndexBench_Build_eq:
  assumes "index_spec f = Some spec" "ib_bin (ixb_bu b) = fb_bin fb"
  shows "\<exists>pre w'. length pre = 5 \<and> IndexBench_Build pf gettimeofday fb f arr b w =
    (let col = (ixb_col b)\<lparr>col_spec := spec\<rparr>;
         bu = (ixb_bu b)\<lparr>ib_bin := built fb f col arr\<rparr> in
     if NDEBUG pf then Some (pre, b\<lparr>ixb_col := col, ixb_bu := bu\<rparr>, w')
     else if sizes_ok (ib_bin bu) then Some (pre @ debug_lines fb bu, b\<lparr>ixb_col := col, ixb_bu := bu\<rparr>, w')
     else None)"
proof -
  let ?col = "(ixb_col b)\<lparr>col_spec := spec\<rparr>"
  let ?bu = "(ixb_bu b)\<lparr>ib_bin := built fb f ?col arr\<rparr>"
  obtain t0 w0 where t0: "now gettimeofday w = (t0, w0)" by (rule now_obtain)
  obtain d lab w1 where build: "(if FLAGS_fastbit_granule f \<noteq> 0
      then TEST_GranuleBuild gettimeofday fb ?col arr (ixb_bu b) w0
      else TEST_Build gettimeofday fb ?col arr (ixb_bu b) w0) = ([Timed lab d (chars '' s'')], ?bu, w1)"
    using TEST_GranuleBuild_eq [of gettimeofday fb ?col arr "ixb_bu b" w0]
      TEST_Build_eq [of gettimeofday fb ?col arr "ixb_bu b" w0]
    by (cases "FLAGS_fastbit_granule f = 0") (auto simp: built_def granuled_def binned_def assms(2))
  obtain t1 w2 where t1: "now gettimeofday w1 = (t1, w2)" by (rule now_obtain)
  let ?bm = "bitmap_lines (MemoryUsage_at (fb_bytes fb) ?bu) 0 (unat (NumBitVectors ?bu))"
  let ?bk = "bitmap_lines (NumKeys (fb_cnt fb) ?bu) 0 (unat (NumBitVectors ?bu))"
  let ?pre = "[Timed lab d (chars '' s''), Text (fb_print fb (ib_bin ?bu)),
      Timed (chars ''== Index built in '') (t1 - t0) (chars '' s''), Line (chars ''== Spec: '' @ spec),
      Line (chars ''== Disk storage size: '' @
              dec_int (uint (DiskStorageUsage (fb_getSerialSize fb) ?bu)) @ chars '' B'')]"
  have "IndexBench_Build pf gettimeofday fb f arr b w =
    do { IndexBuilder_Finish pf ?bu;
         debug \<leftarrow> (if NDEBUG pf then Some []
             else do {
               sizes \<leftarrow> ?bm; keys \<leftarrow> ?bk;
               Some ([Line (chars ''== Memory: '' @
                        dec_int (uint (MemoryUsage (fb_bytes fb) ?bu)) @ chars '' B''),
                      Line (chars ''== Per-bitmap sizes:'')] @ sizes @ [Line (chars ''== Keys:'')] @ keys) });
         Some (?pre @ debug, b\<lparr>ixb_col := ?col, ixb_bu := ?bu\<rparr>, w2) }"
    using build t1 by (cases "FLAGS_fastbit_granule f = 0") (simp_all add: IndexBench_Build_def t0 assms(1) Let_def)
  then have "IndexBench_Build pf gettimeofday fb f arr b w =
    (if NDEBUG pf then Some (?pre, b\<lparr>ixb_col := ?col, ixb_bu := ?bu\<rparr>, w2)
     else if sizes_ok (ib_bin ?bu)
     then Some (?pre @ debug_lines fb ?bu, b\<lparr>ixb_col := ?col, ixb_bu := ?bu\<rparr>, w2) else None)"
    using bitmap_lines_ok [of ?bu "fb_bytes fb"] bitmap_lines_ok [of ?bu "fb_cnt fb"]
    by (cases "NDEBUG pf"; cases "sizes_ok (built fb f ?col arr)")
      (simp_all add: Finish_sizes_ok debug_lines_def Let_def)
  then show ?thesis by (intro exI [of _ ?pre] exI [of _ w2]) (simp add: Let_def)
qed

lemma IndexBench_Build_no_spec: "index_spec f = None \<Longrightarrow> IndexBench_Build pf gettimeofday fb f arr b w = None"
  by (simp add: IndexBench_Build_def Let_def split: prod.split)

text \<open>The line of one query, for the time it took and the state of the world it found.\<close>

definition query_line :: "('bv, 'g, 'w) fastbit \<Rightarrow> ibis_column \<Rightarrow> 'bv ibis_bin \<Rightarrow> rat \<Rightarrow> u64 \<times> 'w \<Rightarrow> report" where
  "query_line fb col bin a = (\<lambda>(d, w). Timed (chars ''== Query evaluated in '') d
     (chars '' s: hits='' @ dec_int (fst (fst (fb_evaluate fb col a bin w)))))"

lemma IndexBench_LessThan_ok:
  assumes "query_law fb" "ib_bin (ixb_bu b) = built fb f (ixb_col b) arr"
  shows "\<exists>q w'. IndexBench_LessThan pf gettimeofday fb arr a b w =
    Some ([query_line fb (ixb_col b) (ib_bin (ixb_bu b)) a q], w')"
proof -
  obtain t0 w0 where t0: "now gettimeofday w = (t0, w0)" by (rule now_obtain)
  obtain h rs w1 where ev: "fb_evaluate fb (ixb_col b) a (ib_bin (ixb_bu b)) w0 = ((h, rs), w1)"
    by (metis surj_pair)
  obtain t w2 where t: "now gettimeofday w1 = (t, w2)" by (rule now_obtain)
  have "ib_bin (ixb_bu b) \<in> {binned fb (ixb_col b) arr, granuled fb (ixb_col b) arr}"
    using assms(2) by (simp add: built_def)
  with assms(1) ev have "rs ! j \<Longrightarrow> j < length rs \<Longrightarrow> j < length arr \<and> arr ! j < a" for j
    unfolding query_law_def by (metis fst_conv snd_conv)
  then have "check_hits arr a rs 0 = Some ()" by (intro check_hits_ok) auto
  with ev t0 t show ?thesis
    by (intro exI [of _ "(t - t0, w0)"] exI [of _ w2]) (simp add: IndexBench_LessThan_def query_line_def Let_def)
qed

lemma BM_queries_ok:
  assumes "\<And>a w. \<exists>t w'. query a w = Some ([rep a t], w')"
  shows "\<exists>ts w'. BM_queries query bounds w = Some (map2 rep bounds ts, w') \<and> length ts = length bounds"
proof (induction bounds arbitrary: w)
  case (Cons a bounds)
  obtain t w1 where 1: "query a w = Some ([rep a t], w1)" using assms by blast
  obtain ts w2 where "BM_queries query bounds w1 = Some (map2 rep bounds ts, w2)" "length ts = length bounds"
    using Cons by blast
  with 1 show ?case by (auto intro: exI [of _ "t # ts"])
qed simp

lemma index_spec_None_iff:
  "index_spec f = None \<longleftrightarrow> FLAGS_fastbit_granule f = 0 \<and> FLAGS_fastbit_strategy f \<notin> {0, 1, 2}"
  by (auto simp: index_spec_def binning_strategy_def Let_def)

section \<open>A small library\<close>

text \<open>
  An instance of the laws, with an index that loses most of the data: one bin, whose bit vector has all
  the rows and whose largest value is all that a query knows of them. A query answers all rows or none.
\<close>

definition toy_index :: "rat list \<Rightarrow> bool list ibis_bin" where
  "toy_index arr = \<lparr>bin_nobs = 1, bin_offset64 = [0, 9], bin_bits = [Some (map (\<lambda>k. True) arr)],
     bin_bounds = [foldr max arr 0], bin_minval = [foldr min arr 0], bin_maxval = [foldr max arr 0],
     bin_nrows = word_of_nat (length arr)\<rparr>"

definition toy_bin :: "bool list ibis_bin" where
  "toy_bin = \<lparr>bin_nobs = 0, bin_offset64 = [], bin_bits = [], bin_bounds = [], bin_minval = [],
     bin_maxval = [], bin_nrows = 0\<rparr>"

definition toy_evaluate :: "rat \<Rightarrow> bool list ibis_bin \<Rightarrow> int \<times> bool list" where
  "toy_evaluate a bin =
     (case bin_bits bin of
        Some v # _ \<Rightarrow> let hit = bin_maxval bin ! 0 < a
          in (if hit then int (length v) else 0, map (\<lambda>b. b \<and> hit) v)
      | _ \<Rightarrow> (0, []))"

definition toy_fastbit :: "(bool list, rat list, 'w) fastbit" where
  "toy_fastbit =
    \<lparr>fb_bin = toy_bin,
     fb_mapGranules = (\<lambda>col bin arr. arr),
     fb_convertGranules = (\<lambda>col arr bin. toy_index arr),
     fb_setBoundaries = (\<lambda>col arr bin. bin),
     fb_binning = (\<lambda>col arr bin. toy_index arr),
     fb_evaluate = (\<lambda>col a bin w. (toy_evaluate a bin, w)),
     fb_print = (\<lambda>bin. chars ''index''),
     fb_getSerialSize = (\<lambda>v. word_of_nat (length v)),
     fb_bytes = (\<lambda>v. word_of_nat (4 * length v)),
     fb_cnt = (\<lambda>v. word_of_nat (length (filter id v)))\<rparr>"

lemma le_foldr_max: "i < length arr \<Longrightarrow> arr ! i \<le> foldr max arr (0 :: rat)"
  by (induction arr arbitrary: i) (auto simp: less_Suc_eq_0_disj le_max_iff_disj)

lemma toy_laws: "new_law toy_fastbit" "build_law toy_fastbit" "query_law toy_fastbit"
  by (auto simp: new_law_def build_law_def query_law_def toy_fastbit_def toy_bin_def toy_index_def toy_evaluate_def sizes_ok_def
      binned_def granuled_def Let_def intro: le_less_trans [OF le_foldr_max])

section \<open>Properties\<close>

text \<open>The command lines that the benchmark can run.\<close>

definition runnable :: "bench_flags \<Rightarrow> bool" where
  "runnable f \<longleftrightarrow> 0 \<le> FLAGS_n f \<and> (FLAGS_fastbit_granule f \<noteq> 0 \<or> FLAGS_fastbit_strategy f \<in> {0, 1, 2})"

lemma BM_Main_runs:
  assumes "new_law fb" "build_law fb" "query_law fb"
    and "BM_parse args bench_defaults = Some f" "runnable f"
  shows "\<exists>spec keys dir log1 qs w'. index_spec f = Some spec \<and> bench_keys f = Some keys \<and> length qs = 11 \<and>
    (let col = \<lparr>col_dir = dir, col_name = chars ''var0'', col_spec = spec\<rparr>;
         bin = built fb f col (map (bench_key f) keys)
     in BM_Main pf os gettimeofday fb args w =
       Some (bench_head f @ log1 @ map2 (query_line fb col bin) (map (bench_bound f) [0..<11]) qs, w'))"
proof -
  obtain spec where spec: "index_spec f = Some spec"
    using assms(5) index_spec_None_iff [of f] by (cases "index_spec f") (auto simp: runnable_def)
  obtain keys where keys: "bench_keys f = Some keys"
    using assms(5) bench_keys_None_iff [of f] by (cases "bench_keys f") (auto simp: runnable_def)
  let ?arr = "map (bench_key f) keys"
  obtain b w1 where new: "IndexBench_new pf os fb w = Some (b, w1)" "ib_bin (ixb_bu b) = fb_bin fb"
      "col_name (ixb_col b) = chars ''var0''"
    using IndexBench_new_ok [OF assms(1), of pf os w] by blast
  let ?col = "(ixb_col b)\<lparr>col_spec := spec\<rparr>"
  let ?bin = "built fb f ?col ?arr"
  have "sizes_ok ?bin" using assms(2) by (simp add: build_law_def built_def)
  with IndexBench_Build_eq [OF spec new(2), of pf gettimeofday ?arr w1]
  obtain log1 b' w2 where build: "IndexBench_Build pf gettimeofday fb f ?arr b w1 = Some (log1, b', w2)"
      "ixb_col b' = ?col" "ib_bin (ixb_bu b') = ?bin"
    by (cases "NDEBUG pf") (auto simp: Let_def)
  have lt: "\<exists>q w'. IndexBench_LessThan pf gettimeofday fb ?arr a b' u = Some ([query_line fb ?col ?bin a q], w')" for a u
    using IndexBench_LessThan_ok [OF assms(3), of b' f ?arr pf gettimeofday a u] build(2,3)
    by simp
  obtain qs w3 where qs: "length qs = 11"
    "BM_queries (\<lambda>a. IndexBench_LessThan pf gettimeofday fb ?arr a b') (map (bench_bound f) [0..<11]) w2 =
      Some (map2 (query_line fb ?col ?bin) (map (bench_bound f) [0..<11]) qs, w3)"
    using BM_queries_ok [where query = "\<lambda>a. IndexBench_LessThan pf gettimeofday fb ?arr a b'"
        and rep = "query_line fb ?col ?bin" and bounds = "map (bench_bound f) [0..<11]" and w = w2, OF lt]
    by auto
  have col: "?col = \<lparr>col_dir = col_dir (ixb_col b), col_name = chars ''var0'', col_spec = spec\<rparr>"
    using new(3) by simp
  have "BM_Main pf os gettimeofday fb args w =
    Some (bench_head f @ log1 @ map2 (query_line fb ?col ?bin) (map (bench_bound f) [0..<11]) qs,
      IndexBench_delete os b' w3)"
    using keys qs(2) assms(4) new(1) build(1) by (simp add: BM_Main_def Let_def)
  with spec keys qs(1) show ?thesis unfolding col Let_def by blast
qed

lemma BM_Main_stops:
  "BM_parse args bench_defaults = None \<or> (\<exists>f. BM_parse args bench_defaults = Some f \<and> \<not> runnable f) \<Longrightarrow>
   BM_Main pf os gettimeofday fb args w = None"
proof (elim disjE exE conjE)
  fix f
  assume f: "BM_parse args bench_defaults = Some f" "\<not> runnable f"
  then have "bench_keys f = None \<or> index_spec f = None"
    by (auto simp: bench_keys_None_iff index_spec_None_iff runnable_def)
  with f show ?thesis
    by (auto simp: BM_Main_def Let_def IndexBench_Build_no_spec bind_eq_None_conv)
qed (simp add: BM_Main_def)

section \<open>Properties\<close>

text \<open>
  A time below \<open>2 ^ 40\<close> microseconds, twelve days, is printed as the seconds and thousandths next
  to it: neither of the two divisions of doubles nor the rounding of \<open>%.3f\<close> moves it across half
  a thousandth.
\<close>

lemma printed_seconds:
  assumes "unat d < 2 ^ 40"
  shows "\<exists>k. seconds d = dec_int (int (k div 1000)) @ chars ''.'' @ three_digits (k mod 1000) \<and>
    \<bar>1000 * int k - int (unat d)\<bar> \<le> 500"
proof -
  define D :: rat where "D = of_nat (unat d)"
  have D: "0 \<le> D" "D < 1099511627776" "double D = D"
    using assms of_nat_less_iff [of "unat d" "2 ^ 40", where 'a = rat] fl_of_int [of "int (unat d)" 53]
    by (simp_all add: D_def del: of_nat_unat)
  define y where "y = double (D / 1000)"
  define x where "x = double (y / 1000)"
  have "\<bar>y - D / 1000\<bar> \<le> 2 powi (30 - int 53)" unfolding y_def using D by (intro fl_error) (simp add: power_int_def)
  then have y: "\<bar>y - D / 1000\<bar> \<le> 1 / 8388608" by (simp add: power_int_def power_one_over)
  then have "\<bar>y / 1000\<bar> < 2097152" using D by linarith
  then have "\<bar>y / 1000\<bar> < 2 powi (20 + 1)" by (simp add: power_int_def)
  then have "\<bar>x - y / 1000\<bar> \<le> 2 powi (20 - int 53)" unfolding x_def by (rule fl_error)
  then have x: "\<bar>x - y / 1000\<bar> \<le> 1 / 8589934592" by (simp add: power_int_def power_one_over)
  have "0 \<le> y" unfolding y_def using D by (intro le_fl) simp_all
  then have "0 \<le> x" unfolding x_def by (intro le_fl) simp_all
  then have "0 \<le> round_half_even (x * 1000)"
    using round_half_even_mono [of "of_int 0" "x * 1000"] unfolding round_half_even_of_int by simp
  then obtain k where k: "round_half_even (x * 1000) = int k" by (metis nonneg_int_cases)
  have "\<bar>of_int (int k) - x * 1000\<bar> \<le> 1 / 2" using round_half_even_error [of "x * 1000"] by (simp only: k)
  with x y have "\<bar>1000 * of_nat k - D\<bar> < (501 :: rat)" unfolding of_int_of_nat_eq by linarith
  then have "\<bar>1000 * int k - int (unat d)\<bar> < 501"
    unfolding D_def by linarith
  then show ?thesis
    using k D(3) by (intro exI [of _ k]) (simp add: seconds_def D_def [symmetric] y_def [symmetric] x_def [symmetric] Let_def del: of_nat_unat)
qed

text \<open>
  C33: the times in the reports: what is printed of the difference of two readings of the clock is the
  time between them, up to twelve days, to the nearest thousandth of a second; a clock that was
  set back makes the difference wrap to almost \<open>2 ^ 64\<close> microseconds.
\<close>

theorem printed_elapsed:
  "let elapsed = 1000000 * (s2 - s1) + (u2 - u1); d = CurrentMicros s2 u2 - CurrentMicros s1 u1 in
    (0 \<le> elapsed \<and> elapsed < 2 ^ 40 \<longrightarrow>
      (\<exists>k. seconds d = dec_int (int (k div 1000)) @ chars ''.'' @ three_digits (k mod 1000) \<and>
         \<bar>1000 * int k - elapsed\<bar> \<le> 500)) \<and>
    (- (2 ^ 63) \<le> elapsed \<and> elapsed < 0 \<longrightarrow> uint d = 2 ^ 64 + elapsed)"
proof -
  define elapsed where "elapsed = 1000000 * (s2 - s1) + (u2 - u1)"
  have d: "uint (CurrentMicros s2 u2 - CurrentMicros s1 u1) = elapsed mod 2 ^ 64"
    unfolding CurrentMicros_diff elapsed_def [symmetric] by (simp add: uint_word_of_int)
  have "\<exists>k. seconds (CurrentMicros s2 u2 - CurrentMicros s1 u1) =
        dec_int (int (k div 1000)) @ chars ''.'' @ three_digits (k mod 1000) \<and> \<bar>1000 * int k - elapsed\<bar> \<le> 500"
    if e: "0 \<le> elapsed" "elapsed < 2 ^ 40"
  proof -
    have "elapsed mod 2 ^ 64 = elapsed" using e by (intro mod_pos_pos_trivial) auto
    then have u: "int (unat (CurrentMicros s2 u2 - CurrentMicros s1 u1)) = elapsed"
      using d by (simp only: uint_nat)
    then have "unat (CurrentMicros s2 u2 - CurrentMicros s1 u1) < 2 ^ 40"
      using e(2) by (simp only: of_nat_less_iff [where 'a = int, symmetric] u of_nat_power of_nat_numeral)
    from printed_seconds [OF this] show ?thesis unfolding u .
  qed
  moreover have "elapsed mod 2 ^ 64 = 2 ^ 64 + elapsed" if e: "- (2 ^ 63) \<le> elapsed" "elapsed < 0"
  proof -
    have "(elapsed + 2 ^ 64) mod 2 ^ 64 = elapsed + 2 ^ 64" using e by (intro mod_pos_pos_trivial) auto
    then show ?thesis by simp
  qed
  ultimately show ?thesis unfolding Let_def elapsed_def [symmetric] d by blast
qed

theorem printed_elapsed_witness:
  "seconds (CurrentMicros 6 200 - CurrentMicros 4 499800) = chars ''1.500''"
proof -
  obtain k where k: "seconds (CurrentMicros 6 200 - CurrentMicros 4 499800) =
      dec_int (int (k div 1000)) @ chars ''.'' @ three_digits (k mod 1000)" "\<bar>1000 * int k - 1500400\<bar> \<le> 500"
    using printed_elapsed [of 6 4 200 499800] by (auto simp: Let_def)
  then have "k = 1500" by linarith
  with k(1) show ?thesis by (simp add: three_digits_def dec_int_def dec_digits.simps chars_def)
qed

text \<open>
  C11: on a FastBit that keeps its promises the benchmark runs to its end, in a release and in a debug
  build, for exactly these command lines: every number is an \<open>int\<close>, the number of keys is not
  negative, and without granule mapping the strategy is 0, 1 or 2. No assertion fails, no bitmap
  is read out of range and no query aborts; the last lines are those of the eleven queries, with
  the hits that the library answers, in the state of the world that the query finds, on the index
  built of all the keys.
\<close>

theorem bench_main_completes:
  assumes "new_law fb" "build_law fb" "query_law fb"
  shows "case BM_parse args bench_defaults of
      None \<Rightarrow> BM_Main pf os gettimeofday fb args w = None
    | Some f \<Rightarrow>
        if \<not> runnable f then BM_Main pf os gettimeofday fb args w = None
        else \<exists>spec keys dir log1 qs w'. index_spec f = Some spec \<and> bench_keys f = Some keys \<and> length qs = 11 \<and>
          (let col = \<lparr>col_dir = dir, col_name = chars ''var0'', col_spec = spec\<rparr>;
               bin = built fb f col (map (bench_key f) keys)
           in BM_Main pf os gettimeofday fb args w =
             Some (bench_head f @ log1 @ map2 (query_line fb col bin) (map (bench_bound f) [0..<11]) qs, w'))"
  using BM_Main_runs [OF assms, of args _ pf os gettimeofday w]
    BM_Main_stops [of args pf os gettimeofday fb w]
  by (cases "BM_parse args bench_defaults") simp_all

theorem bench_main_completes_witness:
  "\<exists>out w'. BM_Main \<lparr>kLittleEndian = True, NDEBUG = False\<rparr> mem_os (\<lambda>w. ((5, 7), w)) toy_fastbit
       [] (mem_empty 9 0) = Some (out, w') \<and> 14 \<le> length out"
proof -
  have "BM_parse [] bench_defaults = Some bench_defaults" "runnable bench_defaults"
    by (simp_all add: bench_defaults_def runnable_def)
  with bench_main_completes [OF toy_laws, where args = "[]" and os = mem_os and w = "mem_empty 9 0" 
      and pf = "\<lparr>kLittleEndian = True, NDEBUG = False\<rparr>" and gettimeofday = "\<lambda>w. ((5, 7), w)"]
  show ?thesis by (auto simp: Let_def bench_head_def)
qed

text \<open>
  C34: what a debug build of \<open>Build\<close> reports of the index that it leaves in the builder: the assertions
  of \<open>Finish\<close> have put every bitmap in range; after five lines come the memory, the size of every
  bitmap and its number of keys, in order, and the memory is the sum of the sizes modulo
  \<open>2 ^ 32\<close>.
\<close>

theorem bench_debug_report:
  assumes "IndexBench_Build \<lparr>kLittleEndian = e, NDEBUG = False\<rparr> gettimeofday fb f arr b w = Some (out, b', w')"
    and "ib_bin (ixb_bu b) = fb_bin fb"
  shows "let bin = ib_bin (ixb_bu b'); n = length (bin_bits bin);
             num = (\<lambda>sz i. dec_int (sint (bits_num sz bin i)))
    in sizes_ok bin \<and>
      drop 5 out = [Line (chars ''== Memory: '' @
          dec_int (uint (MemoryUsage (fb_bytes fb) (ixb_bu b'))) @ chars '' B''),
        Line (chars ''== Per-bitmap sizes:'')] @ map (\<lambda>i. Line (num (fb_bytes fb) i)) [0..<n] @
        [Line (chars ''== Keys:'')] @ map (\<lambda>i. Line (num (fb_cnt fb) i)) [0..<n] \<and>
      MemoryUsage (fb_bytes fb) (ixb_bu b') = (\<Sum>i\<leftarrow>[0..<n]. bits_num (fb_bytes fb) bin i)"
proof -
  obtain spec where spec: "index_spec f = Some spec"
    using assms(1) IndexBench_Build_no_spec [of f] by (metis not_None_eq)
  from IndexBench_Build_eq [OF spec assms(2), of "\<lparr>kLittleEndian = e, NDEBUG = False\<rparr>" gettimeofday arr w]
    assms(1) MemoryUsage_sum [of "fb_bytes fb" "ixb_bu b'"]
  show ?thesis by (auto simp: Let_def debug_lines_def split: if_splits)
qed

theorem bench_debug_report_witness:
  "\<exists>b w out b' w'. IndexBench_Build \<lparr>kLittleEndian = True, NDEBUG = False\<rparr> (\<lambda>w. ((5, 7), w + 1)) toy_fastbit
       bench_defaults [3, 200] b (w :: nat) = Some (out, b', w') \<and>
     drop 5 out = [Line (chars ''== Memory: 8 B''), Line (chars ''== Per-bitmap sizes:''), Line (chars ''8''),
       Line (chars ''== Keys:''), Line (chars ''2'')]"
proof -
  let ?pf = "\<lparr>kLittleEndian = True, NDEBUG = False\<rparr>"
  let ?clock = "\<lambda>w :: nat. ((5 :: int, 7 :: int), w + 1)"
  let ?opts = "\<lparr>ibis_col = Some 0\<rparr> :: nat IndexBuilderOptions"
  let ?b = "\<lparr>ixb_opts = ?opts, ixb_col = \<lparr>col_dir = [], col_name = [], col_spec = []\<rparr>,
    ixb_bu = \<lparr>ib_bin = toy_bin, ib_col = Some 0, ib_options = ?opts, ib_file = None\<rparr>,
    ixb_tmpdir = []\<rparr>"
  obtain spec where spec: "index_spec bench_defaults = Some spec"
    using index_spec_None_iff [of bench_defaults] by (cases "index_spec bench_defaults")
      (auto simp: bench_defaults_def)
  let ?fb = "toy_fastbit :: (bool list, rat list, nat) fastbit"
  have index: "built ?fb bench_defaults col [3, 200] = toy_index [3, 200]" for col
    by (simp add: built_def binned_def granuled_def toy_fastbit_def bench_defaults_def)
  have fb: "fb_bin ?fb = toy_bin" by (simp add: toy_fastbit_def)
  have ok: "sizes_ok (toy_index [3, 200])" by (simp add: sizes_ok_def toy_index_def)
  obtain out b' w' where build: "IndexBench_Build ?pf ?clock ?fb bench_defaults [3, 200] ?b 0 =
      Some (out, b', w')" "ib_bin (ixb_bu b') = toy_index [3, 200]"
    using IndexBench_Build_eq [OF spec, of ?b ?fb ?pf ?clock "[3, 200]" 0] fb
    by (auto simp: index ok Let_def)
  have "bits_num (fb_bytes ?fb) (toy_index [3, 200]) 0 = 8"
    "bits_num (fb_cnt ?fb) (toy_index [3, 200]) 0 = 2"
    by (simp_all add: bits_num_def toy_index_def toy_fastbit_def)
  moreover have "dec_digits 8 = [56]" "dec_digits 2 = [50]" by (simp_all add: dec_digits.simps)
  ultimately have "drop 5 out = [Line (chars ''== Memory: 8 B''), Line (chars ''== Per-bitmap sizes:''),
      Line (chars ''8''), Line (chars ''== Keys:''), Line (chars ''2'')]"
    using bench_debug_report [OF build(1)] build(2) fb by (simp add: Let_def toy_index_def dec_int_def chars_def)
  with build(1) show ?thesis by blast
qed

end
