(* ===== verification/C2_RandomDraws.thy ===== *)
theory C2_RandomDraws
  imports C2_RandomCycle
begin

text \<open>
  How often the derived draws of \<open>c2_random.h\<close> give each value, counted over the full cycle of the
  generator: \<open>Uniform\<close>, \<open>OneIn\<close> and the bias of \<open>Skewed\<close>.
\<close>

section \<open>Counting residues\<close>

text \<open>Of the numbers from 1 to \<open>p\<close>, those with the remainder \<open>k\<close>.\<close>

lemma card_residue:
  assumes "k < n"
  shows "card {x \<in> {1..p}. x mod n = k} = p div n + (if 1 \<le> k \<and> k \<le> p mod n then 1 else 0)"
proof (induction p)
  case 0
  show ?case by simp
next
  case (Suc p)
  have split: "{x \<in> {1..Suc p}. x mod n = k} =
      {x \<in> {1..p}. x mod n = k} \<union> (if Suc p mod n = k then {Suc p} else {})"
    by (auto simp: le_Suc_eq)
  have "card {x \<in> {1..Suc p}. x mod n = k} = card {x \<in> {1..p}. x mod n = k} + (if Suc p mod n = k then 1 else 0)"
    unfolding split by (subst card_Un_disjoint) auto
  also have "\<dots> = Suc p div n + (if 1 \<le> k \<and> k \<le> Suc p mod n then 1 else 0)"
    unfolding Suc using assms mod_less_divisor [of n p] by (auto simp: mod_Suc div_Suc simp del: mod_less_divisor)
  finally show ?case .
qed

lemma card_residue_le:
  "b < n \<Longrightarrow> (b + 1) * (p div n) \<le> card {x \<in> {1..p}. x mod n \<le> b}"
proof (induction b)
  case 0
  then show ?case using card_residue [of 0 n p] by simp
next
  case (Suc b)
  have "{x \<in> {1..p}. x mod n \<le> Suc b} = {x \<in> {1..p}. x mod n \<le> b} \<union> {x \<in> {1..p}. x mod n = Suc b}"
    by auto
  then have "card {x \<in> {1..p}. x mod n \<le> Suc b} =
      card {x \<in> {1..p}. x mod n \<le> b} + card {x \<in> {1..p}. x mod n = Suc b}"
    by (simp only:) (rule card_Un_disjoint, auto)
  moreover have "(b + 1) * (p div n) \<le> card {x \<in> {1..p}. x mod n \<le> b}" using Suc by simp
  ultimately show ?case using card_residue [OF Suc.prems, of p] by simp
qed

section \<open>Draws over the cycle\<close>

text \<open>
  The states of the cycle that starts at \<open>r\<close> stand for the calls of \<open>Next\<close>: how many of them draw a
  number with a given property.
\<close>

definition draws_with :: "Random \<Rightarrow> (nat \<Rightarrow> bool) \<Rightarrow> nat" where
  "draws_with r P = card {i. i < period \<and> P (unat (snd (Random_Next (Random_Nexts i r))))}"

lemma draws_with_eq:
  assumes "valid_seed r"
  shows "draws_with r P = card {x \<in> {1..period}. P x}"
proof -
  let ?r = "fst (Random_Next r)" and ?f = "\<lambda>i. unat (rnd_seed (Random_Nexts i (fst (Random_Next r))))"
  have draw: "unat (snd (Random_Next (Random_Nexts i r))) = ?f i" for i
    using Nexts_Next [of i r] by (simp add: snd_Next)
  note image = Nexts_image [OF valid_seed_Next [OF assms]]
  have "?f ` {i. i < period \<and> P (?f i)} = {x \<in> ?f ` {..<period}. P x}" by blast
  then have "?f ` {i. i < period \<and> P (?f i)} = {x \<in> {1..period}. P x}" unfolding image(2) .
  moreover have "inj_on ?f {i. i < period \<and> P (?f i)}"
    by (rule inj_on_subset [OF image(1)]) blast
  from card_image [OF this] have "card {i. i < period \<and> P (?f i)} = card (?f ` {i. i < period \<and> P (?f i)})" ..
  ultimately show ?thesis unfolding draws_with_def draw by (simp only:)
qed

section \<open>Properties\<close>

text \<open>
  C20: over the full cycle \<open>Uniform(n)\<close> is as uniform as a remainder can be: every value below \<open>n\<close> is drawn
  \<open>(M - 1) div n\<close> times, and the first ones from 1 on, as many as the division leaves over, once
  more; \<open>OneIn(n)\<close> is true exactly \<open>(M - 1) div n\<close> times.
\<close>

theorem random_uniform_equidistributed:
  assumes "valid_seed r" "k < n"
  shows "card {i. i < 2 ^ 31 - 2 \<and> (\<exists>r'. Random_Uniform (Random_Nexts i r) n = Some (r', k))} =
      (2 ^ 31 - 2) div unat n + (if 1 \<le> unat k \<and> unat k \<le> (2 ^ 31 - 2) mod unat n then 1 else 0) \<and>
    card {i. i < 2 ^ 31 - 2 \<and> (\<exists>r'. Random_OneIn (Random_Nexts i r) n = Some (r', True))} = (2 ^ 31 - 2) div unat n"
proof -
  have n: "n \<noteq> 0" "unat k < unat n" using assms(2) by (auto simp: word_less_nat_alt)
  have p: "2 ^ 31 - 2 = period" by (simp add: period_def)
  have mod: "x mod n = j \<longleftrightarrow> unat x mod unat n = unat j" for x j :: u32
    by (simp add: word_unat_eq_iff unat_mod_distrib)
  have "(\<exists>r'. Random_Uniform s n = Some (r', k)) \<longleftrightarrow> unat (snd (Random_Next s)) mod unat n = unat k"
    "(\<exists>r'. Random_OneIn s n = Some (r', True)) \<longleftrightarrow> unat (snd (Random_Next s)) mod unat n = 0" for s
    using n(1) mod [of _ k] mod [of _ 0] by (auto simp: Uniform_eq Random_OneIn_def split: prod.splits)
  then show ?thesis
    using draws_with_eq [OF assms(1), of "\<lambda>x. x mod unat n = unat k"]
      draws_with_eq [OF assms(1), of "\<lambda>x. x mod unat n = 0"]
      card_residue [OF n(2), of period] card_residue [of 0 "unat n" period] n(2)
    unfolding p draws_with_def by simp
qed

theorem random_uniform_equidistributed_witness:
  "card {i. i < 2 ^ 31 - 2 \<and> (\<exists>r'. Random_Uniform (Random_Nexts i (Random_new 301)) 10 = Some (r', 3))} = 214748365"
proof -
  have "(3 :: u32) < 10" by simp
  from random_uniform_equidistributed [OF valid_seed_new this, of 301] show ?thesis by simp
qed

text \<open>
  C21: the bias of \<open>Skewed\<close> towards small numbers that its comment promises: over the full cycle, of the
  \<open>max_log + 1\<close> equal shares of the calls at least \<open>b + 1\<close> give a number below \<open>2 ^ b\<close>, for
  every \<open>b\<close> up to \<open>max_log\<close>.
\<close>

theorem random_skewed_bias:
  assumes "valid_seed r" "unat max_log \<le> 31" "b \<le> unat max_log"
  shows "(b + 1) * ((2 ^ 31 - 2) div (unat max_log + 1)) \<le>
    card {i. i < 2 ^ 31 - 2 \<and> (\<exists>r' x. Random_Skewed (Random_Nexts i r) max_log = Some (r', x) \<and> unat x < 2 ^ b)}"
proof -
  have p: "2 ^ 31 - 2 = period" by (simp add: period_def)
  have "(b + 1) * (period div (unat max_log + 1)) \<le> draws_with r (\<lambda>x. x mod (unat max_log + 1) \<le> b)"
    unfolding draws_with_eq [OF assms(1)] using assms(3) by (intro card_residue_le) simp
  also have "\<dots> \<le> card {i. i < period \<and> (\<exists>r' x. Random_Skewed (Random_Nexts i r) max_log = Some (r', x) \<and> unat x < 2 ^ b)}"
    unfolding draws_with_def
  proof (rule card_mono)
    have "\<exists>r' x. Random_Skewed s max_log = Some (r', x) \<and> unat x < 2 ^ b"
      if "unat (snd (Random_Next s)) mod (unat max_log + 1) \<le> b" for s
      using Skewed_below [OF assms(2) that] .
    then show "{i. i < period \<and> unat (snd (Random_Next (Random_Nexts i r))) mod (unat max_log + 1) \<le> b} \<subseteq>
        {i. i < period \<and> (\<exists>r' x. Random_Skewed (Random_Nexts i r) max_log = Some (r', x) \<and> unat x < 2 ^ b)}"
      by blast
  qed simp
  finally show ?thesis unfolding p .
qed

theorem random_skewed_bias_witness:
  "613566756 \<le> card {i. i < 2 ^ 31 - 2 \<and>
     (\<exists>r' x. Random_Skewed (Random_Nexts i (Random_new 301)) 6 = Some (r', x) \<and> unat x < 4)}"
proof -
  have "unat (6 :: u32) \<le> 31" "1 \<le> unat (6 :: u32)" by simp_all
  from random_skewed_bias [OF valid_seed_new this(1), of 2 301] show ?thesis by simp
qed

end
