(* ===== verification/C2_RandomTest.thy ===== *)
theory C2_RandomTest
  imports C2_TestUtil C2_Harness
begin

text \<open>
  The test program of the random number generator (\<open>c2_random_test.cc\<close>): three tests that count draws
  in arrays of the stack and print the counts, and the \<open>main\<close> that runs them. An index outside
  its array, or a count that overflows, has no result.
\<close>

section \<open>The tests\<close>

text \<open>\<open>histo[i]++\<close>\<close>

definition histo_inc :: "int list \<Rightarrow> int \<Rightarrow> int list option" where
  "histo_inc histo i =
     (if 0 \<le> i \<and> i < int (length histo) \<and> fits_int (histo ! nat i + 1)
      then Some (histo[nat i := histo ! nat i + 1]) else None)"

text \<open>\<open>n\<close> rounds of the loop over the draws.\<close>

fun histo_loop :: "(Random \<Rightarrow> (Random \<times> int) option) \<Rightarrow> nat \<Rightarrow> Random \<Rightarrow> int list \<Rightarrow> int list option" where
  "histo_loop draw 0 rnd histo = Some histo"
| "histo_loop draw (Suc n) rnd histo =
     do { (rnd, i) \<leftarrow> draw rnd;
          histo \<leftarrow> histo_inc histo i;
          histo_loop draw n rnd histo }"

text \<open>\<open>fprintf(stderr, "%d:\t%d\n", i, histo[i])\<close> for every \<open>i\<close>, after the title.\<close>

definition histo_print :: "int list \<Rightarrow> byte list" where
  "histo_print histo =
     chars ''== Results'' @ [10] @
     concat (map (\<lambda>i. dec_int (int i) @ chars '':'' @ [9] @ dec_int (histo ! i) @ [10]) [0..<length histo])"

definition draw_uniform :: "Random \<Rightarrow> (Random \<times> int) option" where
  "draw_uniform rnd = do { (rnd, x) \<leftarrow> Random_Uniform rnd 10; Some (rnd, int (unat x)) }"

definition draw_skewed :: "Random \<Rightarrow> (Random \<times> int) option" where
  "draw_skewed rnd = do { (rnd, x) \<leftarrow> Random_Skewed rnd 6; Some (rnd, int (unat x)) }"

text \<open>\<open>int(100. * double(rnd.Next()) / double(INT32_MAX))\<close>\<close>

definition draw_range :: "Random \<Rightarrow> (Random \<times> int) option" where
  "draw_range rnd =
     (let (rnd, x) = Random_Next rnd in
      do { i \<leftarrow> cast_int (double (double (100 * double (of_nat (unat x))) / double 2147483647));
           Some (rnd, i) })"

definition RandomTest_Uniform :: "'w test_func" where
  "RandomTest_Uniform p =
     do { histo \<leftarrow> histo_loop draw_uniform 10000 (Random_new 301) (replicate 10 0);
          Some (Inr (put_err (histo_print histo) p)) }"

definition RandomTest_Skewed :: "'w test_func" where
  "RandomTest_Skewed p =
     do { histo \<leftarrow> histo_loop draw_skewed 10000 (Random_new 301) (replicate 64 0);
          Some (Inr (put_err (histo_print histo) p)) }"

definition RandomTest_Range :: "'w test_func" where
  "RandomTest_Range p =
     do { histo \<leftarrow> histo_loop draw_range 100000 (Random_new 301) (replicate 100 0);
          Some (Inr (put_err (histo_print histo) p)) }"

text \<open>The registrations, in the order of the file, and \<open>main\<close>.\<close>

definition random_tests :: "'w test list" where
  "random_tests =
     [\<lparr>tst_base = chars ''RandomTest'', tst_name = chars ''Uniform'', tst_func = RandomTest_Uniform\<rparr>,
      \<lparr>tst_base = chars ''RandomTest'', tst_name = chars ''Skewed'', tst_func = RandomTest_Skewed\<rparr>,
      \<lparr>tst_base = chars ''RandomTest'', tst_name = chars ''Range'', tst_func = RandomTest_Range\<rparr>]"

definition RandomTest_main :: "(byte list \<Rightarrow> byte list option) \<Rightarrow> 'w process \<Rightarrow>
    ('w process + (int \<times> 'w process)) option" where
  "RandomTest_main getenv p = RunAllTests getenv (register_all random_tests) p"

section \<open>Counting\<close>

text \<open>The values that a number of draws gives.\<close>

fun draws :: "(Random \<Rightarrow> (Random \<times> int) option) \<Rightarrow> nat \<Rightarrow> Random \<Rightarrow> int list option" where
  "draws draw 0 rnd = Some []"
| "draws draw (Suc n) rnd =
     do { (rnd, i) \<leftarrow> draw rnd;
          vs \<leftarrow> draws draw n rnd;
          Some (i # vs) }"

lemma histo_loop_counts:
  assumes "draws draw n rnd = Some vs" "\<forall>i \<in> set vs. 0 \<le> i \<and> i < int (length histo)"
    "\<forall>h \<in> set histo. 0 \<le> h \<and> h + int n < 2 ^ 31"
  shows "histo_loop draw n rnd histo =
    Some (map (\<lambda>k. histo ! k + int (count_list vs (int k))) [0..<length histo])"
  using assms
proof (induction n arbitrary: rnd vs histo)
  case 0
  then show ?case by (simp add: map_nth)
next
  case (Suc n)
  then obtain rnd' i us where step: "draw rnd = Some (rnd', i)" "draws draw n rnd' = Some us" "vs = i # us"
    by (auto simp: bind_Some_iff)
  let ?h = "histo[nat i := histo ! nat i + 1]"
  have i: "0 \<le> i" "nat i < length histo" using Suc.prems(2) step(3) by auto
  then have hi: "0 \<le> histo ! nat i" "histo ! nat i + int (Suc n) < 2 ^ 31" using Suc.prems(3) by auto
  then have "histo_inc histo i = Some ?h" using i by (auto simp: histo_inc_def fits_int_def)
  moreover have "histo_loop draw n rnd' ?h = Some (map (\<lambda>k. ?h ! k + int (count_list us (int k))) [0..<length histo])"
  proof -
    have "\<forall>h \<in> set ?h. 0 \<le> h \<and> h + int n < 2 ^ 31"
      using Suc.prems(3) hi by (auto dest!: subsetD [OF set_update_subset_insert])
    with Suc.IH [OF step(2), of ?h] Suc.prems(2) step(3) show ?thesis by simp
  qed
  moreover have "?h ! k + int (count_list us (int k)) = histo ! k + int (count_list vs (int k))"
    if "k < length histo" for k
    using that i step(3) by (auto simp: nth_list_update)
  ultimately show ?case using step(1) by simp
qed

text \<open>Draws that take one number each and compute their value of it.\<close>

lemma draws_function:
  assumes "\<And>r. valid_seed r \<Longrightarrow> draw r = Some (fst (Random_Next r), f (unat (rnd_seed (fst (Random_Next r)))))"
    and "valid_seed rnd"
  shows "draws draw n rnd = Some (map (\<lambda>i. f (unat (rnd_seed rnd) * 16807 ^ Suc i mod M31)) [0..<n])"
proof -
  have "draws draw n rnd = Some (map (\<lambda>i. f (unat (rnd_seed (Random_Nexts (Suc i) rnd)))) [0..<n])"
    using assms(2)
  proof (induction n arbitrary: rnd)
    case (Suc n)
    have "map (\<lambda>i. f (unat (rnd_seed (Random_Nexts (Suc i) rnd)))) [0..<Suc n] =
        f (unat (rnd_seed (fst (Random_Next rnd)))) #
        map (\<lambda>i. f (unat (rnd_seed (Random_Nexts (Suc i) (fst (Random_Next rnd)))))) [0..<n]"
      unfolding map_upt_Suc by (simp add: Nexts_Next del: Random_Nexts.simps) (simp add: Nexts_Next [symmetric])
    then show ?case using Suc.IH [OF valid_seed_Next [OF Suc.prems]] assms(1) [OF Suc.prems] by simp
  qed simp
  then show ?thesis using Nexts_power [OF assms(2)] by (simp del: Random_Nexts.simps power_Suc)
qed

text \<open>The same for draws that take two numbers each.\<close>

lemma draws_function2:
  assumes "\<And>r. valid_seed r \<Longrightarrow> draw r = Some (Random_Nexts 2 r,
      f (unat (rnd_seed (Random_Nexts 1 r))) (unat (rnd_seed (Random_Nexts 2 r))))"
    and "valid_seed rnd"
  shows "draws draw n rnd = Some (map (\<lambda>i. f (unat (rnd_seed rnd) * 16807 ^ (2 * i + 1) mod M31)
    (unat (rnd_seed rnd) * 16807 ^ (2 * i + 2) mod M31)) [0..<n])"
proof -
  let ?x = "\<lambda>k r. unat (rnd_seed (Random_Nexts k r))"
  have Nexts_2: "Random_Nexts 2 r = fst (Random_Next (fst (Random_Next r)))" for r by (simp add: numeral_2_eq_2)
  have two: "Random_Nexts (2 * i + k) (Random_Nexts 2 r) = Random_Nexts (2 * Suc i + k) r" for i k r
    using Nexts_Next [of "2 * i + k" "fst (Random_Next r)"] Nexts_Next [of "Suc (2 * i + k)" r]
    by (simp add: numeral_2_eq_2)
  have "draws draw n rnd = Some (map (\<lambda>i. f (?x (2 * i + 1) rnd) (?x (2 * i + 2) rnd)) [0..<n])"
    using assms(2)
  proof (induction n arbitrary: rnd)
    case (Suc n)
    have "valid_seed (Random_Nexts 2 rnd)" using Nexts_power [OF Suc.prems] by blast
    from Suc.IH [OF this] have "draws draw n (Random_Nexts 2 rnd) =
        Some (map (\<lambda>i. f (?x (2 * Suc i + 1) rnd) (?x (2 * Suc i + 2) rnd)) [0..<n])"
      unfolding two .
    then show ?case unfolding map_upt_Suc draws.simps assms(1) [OF Suc.prems] by (simp add: Nexts_2)
  qed simp
  then show ?thesis using Nexts_power [OF assms(2)] by (simp del: Random_Nexts.simps power_Suc)
qed

section \<open>The draws of the tests\<close>

lemma draw_uniform_eq:
  "draw_uniform r = Some (fst (Random_Next r), int (unat (rnd_seed (fst (Random_Next r))) mod 10))"
proof -
  have "unat (x mod 10) = unat x mod 10" for x :: u32 by (simp add: unat_mod_distrib)
  then show ?thesis by (simp add: draw_uniform_def Uniform_eq snd_Next del: of_nat_unat)
qed

lemma draw_skewed_eq:
  "draw_skewed r = Some (Random_Nexts 2 r, int (unat (rnd_seed (Random_Nexts 2 r)) mod
     2 ^ (unat (rnd_seed (Random_Nexts 1 r)) mod 7)))"
proof -
  have six: "unat (6 :: u32) = 6" by simp
  have nexts: "Random_Nexts 2 r = fst (Random_Next (fst (Random_Next r)))" "Random_Nexts 1 r = fst (Random_Next r)"
    by (simp_all add: numeral_2_eq_2)
  obtain x where "Random_Skewed r 6 = Some (Random_Nexts 2 r, x)"
    "unat x = unat (rnd_seed (Random_Nexts 2 r)) mod 2 ^ (unat (rnd_seed (Random_Nexts 1 r)) mod 7)"
    using Skewed_eq [of 6 r] unfolding six nexts snd_Next by auto
  then show ?thesis by (simp add: draw_skewed_def del: of_nat_unat)
qed

text \<open>
  The quotient of doubles is the exact quotient, cut to an integer: an exact quotient that is not an
  integer is further away from the next one than any rounding can move it.
\<close>

lemma range_index:
  assumes "x < M31"
  shows "cast_int (double (double (100 * double (of_nat x)) / double 2147483647)) = Some (int (100 * x div M31))"
proof -
  have ex: "double (of_nat n) = of_nat n" if "n \<le> 2 ^ 53" for n
    using fl_of_int [of "int n" 53] that by simp
  have "double (100 * double (of_nat x)) = of_nat (100 * x)" "double 2147483647 = 2147483647"
    using assms ex [of x] ex [of "100 * x"] ex [of 2147483647] by simp_all
  then have eq: "double (double (100 * double (of_nat x)) / double 2147483647) = double (of_nat (100 * x) / 2147483647)"
    (is "?d = double ?q") by simp
  define k where "k = 100 * x div M31"
  have bounds: "M31 * k \<le> 100 * x" "100 * x + 1 \<le> M31 * (k + 1)" "k < 100"
    using assms by (auto simp: k_def less_mult_imp_div_less dividend_less_times_div Suc_le_eq)
  have "of_nat k \<le> ?q"
    using bounds(1) of_nat_mono [of "M31 * k" "100 * x", where 'a = rat] by (simp add: pos_le_divide_eq)
  then have low: "of_nat k \<le> double ?q" using bounds(3) by (intro le_fl ex) auto
  have "?q \<le> of_nat (k + 1) - 1 / 2147483648"
  proof -
    have "of_nat (100 * x) + 1 \<le> (2147483647 :: rat) * of_nat (k + 1)"
      using bounds(2) of_nat_mono [of "100 * x + 1" "M31 * (k + 1)", where 'a = rat] by simp
    then show ?thesis by (simp add: field_simps)
  qed
  moreover have "double (of_nat (k + 1) - 1 / 2147483648) = of_nat (k + 1) - 1 / 2147483648"
    using bounds(3)
    by (intro fl_exact [where n = "int (k + 1) * 2 ^ 31 - 1" and k = "- 31"])
      (auto simp: power_int_minus field_simps)
  ultimately have "double ?q \<le> of_nat (k + 1) - 1 / 2147483648" by (intro fl_le) auto
  with low have "\<lfloor>double ?q\<rfloor> = int k" by (intro floor_unique) auto
  moreover have "0 \<le> double ?q" using low of_nat_0_le_iff order_trans by blast
  ultimately show ?thesis using bounds(3) by (simp add: eq cast_int_def fits_int_def k_def)
qed

lemma draw_range_eq:
  assumes "valid_seed r"
  shows "draw_range r = Some (fst (Random_Next r), int (100 * unat (rnd_seed (fst (Random_Next r))) div M31))"
proof -
  have "unat (rnd_seed (fst (Random_Next r))) < M31" using valid_seed_Next [OF assms] by (simp add: valid_seed_def)
  from range_index [OF this] show ?thesis
    by (simp add: draw_range_def case_prod_beta snd_Next)
qed

section \<open>Properties\<close>

text \<open>What a test prints, of the values that it drew.\<close>

definition test_report :: "string \<Rightarrow> nat \<Rightarrow> int list \<Rightarrow> byte list" where
  "test_report name bins vs =
     chars ''==== Test RandomTest.'' @ chars name @ [10] @ chars ''== Results'' @ [10] @
     concat (map (\<lambda>k. dec_int (int k) @ chars '':'' @ [9] @ dec_int (int (count_list vs (int k))) @ [10]) [0..<bins])"

lemma histo_test:
  assumes "draws draw n rnd = Some vs" "\<forall>i \<in> set vs. 0 \<le> i \<and> i < int bins" "n < 2 ^ 31"
  shows "\<exists>histo. histo_loop draw n rnd (replicate bins 0) = Some histo \<and>
    chars ''==== Test RandomTest.'' @ chars name @ [10] @ histo_print histo = test_report name bins vs"
  using histo_loop_counts [of draw n rnd vs "replicate bins 0"] assms
  by (auto simp: test_report_def histo_print_def intro!: arg_cong [where f = concat])

lemma RandomTest_titles:
  "(\<forall>p :: 'w process. RandomTest_Uniform (put_err (chars ''==== Test RandomTest.Uniform'' @ [10]) p) =
       Some (Inr (put_err (test_report ''Uniform'' 10 (map (\<lambda>i. int (301 * 16807 ^ Suc i mod M31 mod 10)) [0..<10000])) p)) \<and>
     RandomTest_Skewed (put_err (chars ''==== Test RandomTest.Skewed'' @ [10]) p) =
       Some (Inr (put_err (test_report ''Skewed'' 64 (map (\<lambda>i. int (301 * 16807 ^ (2 * i + 2) mod M31 mod
         2 ^ (301 * 16807 ^ (2 * i + 1) mod M31 mod 7))) [0..<10000])) p)) \<and>
     RandomTest_Range (put_err (chars ''==== Test RandomTest.Range'' @ [10]) p) =
       Some (Inr (put_err (test_report ''Range'' 100 (map (\<lambda>i. int (100 * (301 * 16807 ^ Suc i mod M31) div M31)) [0..<100000])) p)))"
proof -
  have seed: "valid_seed (Random_new 301)" "unat (rnd_seed (Random_new 301)) = 301"
    by (rule valid_seed_new) (simp add: Random_new_def)
  have us: "draws draw_uniform 10000 (Random_new 301) =
      Some (map (\<lambda>i. int (301 * 16807 ^ Suc i mod M31 mod 10)) [0..<10000])"
    using draws_function [where f = "\<lambda>x. int (x mod 10)", OF draw_uniform_eq seed(1), of 10000] unfolding seed(2) .
  have rs: "draws draw_range 100000 (Random_new 301) =
      Some (map (\<lambda>i. int (100 * (301 * 16807 ^ Suc i mod M31) div M31)) [0..<100000])"
    using draws_function [where f = "\<lambda>x. int (100 * x div M31)", OF draw_range_eq seed(1), of 100000] unfolding seed(2) .
  define ss where "ss = map (\<lambda>i. int (301 * 16807 ^ (2 * i + 2) mod M31 mod
      2 ^ (301 * 16807 ^ (2 * i + 1) mod M31 mod 7))) [0..<10000]"
  have ss: "draws draw_skewed 10000 (Random_new 301) = Some ss"
    using draws_function2 [where f = "\<lambda>x y. int (y mod 2 ^ (x mod 7))", OF draw_skewed_eq seed(1), of 10000]
    unfolding seed(2) ss_def .
  have "y mod 2 ^ (x mod 7) < 64" for x y :: nat
  proof -
    have "x mod 7 \<le> 6" using pos_mod_bound [of 7 x] by simp
    then have "(2 :: nat) ^ (x mod 7) \<le> 2 ^ 6" by (rule power_increasing) simp
    also have "(2 :: nat) ^ 6 = 64" by simp
    finally show ?thesis by (rule less_le_trans [OF mod_less_divisor, rotated]) simp
  qed
  then have ss_range: "\<forall>i \<in> set ss. 0 \<le> i \<and> i < int 64"
    unfolding ss_def by (auto simp del: power_Suc)
  have less: "100 * (x mod M31) div M31 < 100" for x by (simp add: less_mult_imp_div_less)
  have title: "put_err h (put_err (chars (''==== Test RandomTest.'' @ name) @ [10]) p) = put_err (test_report name n vs) p"
    if "chars ''==== Test RandomTest.'' @ chars name @ [10] @ h = test_report name n vs" for h name n vs and p :: "'w process"
    unfolding chars_append put_err_put_err append_assoc that ..
  obtain hu hs hr where runs:
    "histo_loop draw_uniform 10000 (Random_new 301) (replicate 10 0) = Some hu"
    "chars ''==== Test RandomTest.'' @ chars ''Uniform'' @ [10] @ histo_print hu =
       test_report ''Uniform'' 10 (map (\<lambda>i. int (301 * 16807 ^ Suc i mod M31 mod 10)) [0..<10000])"
    "histo_loop draw_skewed 10000 (Random_new 301) (replicate 64 0) = Some hs"
    "chars ''==== Test RandomTest.'' @ chars ''Skewed'' @ [10] @ histo_print hs = test_report ''Skewed'' 64 ss"
    "histo_loop draw_range 100000 (Random_new 301) (replicate 100 0) = Some hr"
    "chars ''==== Test RandomTest.'' @ chars ''Range'' @ [10] @ histo_print hr =
       test_report ''Range'' 100 (map (\<lambda>i. int (100 * (301 * 16807 ^ Suc i mod M31) div M31)) [0..<100000])"
    using histo_test [OF us, where bins = 10 and name = "''Uniform''"] histo_test [OF ss ss_range, where name = "''Skewed''"]
      histo_test [OF rs, where bins = 100 and name = "''Range''"] less by (auto simp del: power_Suc)
  show ?thesis
    unfolding ss_def [symmetric] using title [OF runs(2)] title [OF runs(4)] title [OF runs(6)]
    by (auto simp: RandomTest_Uniform_def RandomTest_Skewed_def RandomTest_Range_def
        runs(1,3,5) simp del: power_Suc put_err_put_err)
qed

lemma random_tests_each: "\<forall>t \<in> set random_tests. \<forall>p. \<exists>out. tst_func t p = Some (Inr (put_err out p))"
proof -
  have "histo_loop draw_uniform 10000 (Random_new 301) (replicate 10 0) \<noteq> None"
    "histo_loop draw_skewed 10000 (Random_new 301) (replicate 64 0) \<noteq> None"
    "histo_loop draw_range 100000 (Random_new 301) (replicate 100 0) \<noteq> None"
    using RandomTest_titles unfolding RandomTest_Uniform_def RandomTest_Skewed_def RandomTest_Range_def bind_eq_Some_conv
    by blast+
  then show ?thesis
    by (auto simp: random_tests_def RandomTest_Uniform_def RandomTest_Skewed_def RandomTest_Range_def)
qed

lemma random_tests_run:
  "run_tests random_tests p = Some (Inr (put_err (
      test_report ''Uniform'' 10 (map (\<lambda>i. int (301 * 16807 ^ Suc i mod M31 mod 10)) [0..<10000]) @
      test_report ''Skewed'' 64 (map (\<lambda>i. int (301 * 16807 ^ (2 * i + 2) mod M31 mod
        2 ^ (301 * 16807 ^ (2 * i + 1) mod M31 mod 7))) [0..<10000]) @
      test_report ''Range'' 100 (map (\<lambda>i. int (100 * (301 * 16807 ^ Suc i mod M31) div M31)) [0..<100000])) p))"
proof -
  let ?u = "map (\<lambda>i. int (301 * 16807 ^ Suc i mod M31 mod 10)) [0..<10000]"
  let ?r = "map (\<lambda>i. int (100 * (301 * 16807 ^ Suc i mod M31) div M31)) [0..<100000]"
  have titles: "chars ''==== Test '' @ (chars ''RandomTest'' @ chars ''.'' @ chars ''Uniform'') @ [10] =
      chars ''==== Test RandomTest.Uniform'' @ [10]"
    "chars ''==== Test '' @ (chars ''RandomTest'' @ chars ''.'' @ chars ''Skewed'') @ [10] =
      chars ''==== Test RandomTest.Skewed'' @ [10]"
    "chars ''==== Test '' @ (chars ''RandomTest'' @ chars ''.'' @ chars ''Range'') @ [10] =
      chars ''==== Test RandomTest.Range'' @ [10]"
    by (simp_all add: chars_def)
  let ?s = "(map (\<lambda>i. int (301 * 16807 ^ (2 * i + 2) mod M31 mod
        2 ^ (301 * 16807 ^ (2 * i + 1) mod M31 mod 7))) [0..<10000])"
  have ss: "\<And>p :: 'a process. RandomTest_Uniform (put_err (chars ''==== Test RandomTest.Uniform'' @ [10]) p) =
       Some (Inr (put_err (test_report ''Uniform'' 10 ?u) p))"
    "\<And>p :: 'a process. RandomTest_Skewed (put_err (chars ''==== Test RandomTest.Skewed'' @ [10]) p) =
       Some (Inr (put_err (test_report ''Skewed'' 64 ?s) p))"
    "\<And>p :: 'a process. RandomTest_Range (put_err (chars ''==== Test RandomTest.Range'' @ [10]) p) =
       Some (Inr (put_err (test_report ''Range'' 100 ?r) p))"
    using RandomTest_titles by blast+
  show ?thesis
    unfolding random_tests_def run_tests.simps test_title_def test.select_convs titles ss option.case sum.case
    by (simp del: power_Suc)
qed

text \<open>
  C12: no test of the generator indexes outside its array, divides by zero or overflows: whatever the
  environment selects, \<open>main\<close> returns 0. Without a selection it prints how often each value was
  drawn, by the formula of the generator: in the second test the first of two draws decides how
  many of the low bits of the other are kept, and in the third the computation with doubles gives
  exactly the integer quotient of the draw.
\<close>

theorem random_tests_pass:
  "(\<exists>out. RandomTest_main getenv p = Some (Inr (0, put_err out p))) \<and>
   (let draw = (\<lambda>k. 301 * 16807 ^ k mod (2 ^ 31 - 1)) in
    RandomTest_main Map.empty p = Some (Inr (0, put_err (
      test_report ''Uniform'' 10 (map (\<lambda>i. int (draw (i + 1) mod 10)) [0..<10000]) @
      test_report ''Skewed'' 64 (map (\<lambda>i. int (draw (2 * i + 2) mod 2 ^ (draw (2 * i + 1) mod 7))) [0..<10000]) @
      test_report ''Range'' 100 (map (\<lambda>i. int (100 * draw (i + 1) div (2 ^ 31 - 1))) [0..<100000]) @
      chars ''==== PASSED 3 tests'' @ [10]) p)))"
proof
  have "\<forall>t \<in> set (filter P random_tests). \<forall>p. \<exists>out. tst_func t p = Some (Inr (put_err out p))"
    for P :: "'a test \<Rightarrow> bool"
    using random_tests_each by auto
  then obtain out where "run_tests (filter (test_selected (if getenv (chars ''C2_TESTS'') = None
      then getenv (chars ''TESTS'') else getenv (chars ''C2_TESTS''))) random_tests) p = Some (Inr (put_err out p))"
    using run_tests_ok by blast
  then show "\<exists>out. RandomTest_main getenv p = Some (Inr (0, put_err out p))"
    unfolding RandomTest_main_def RunAllTests_eq by (auto simp: Let_def)
next
  have M: "(2 ^ 31 - 1 :: nat) = M31" by simp
  have passed: "chars ''==== PASSED '' @ dec_int (int (length (random_tests :: 'a test list))) @ chars '' tests'' @ [10] =
      chars ''==== PASSED 3 tests'' @ [10]"
    by (simp add: random_tests_def chars_def dec_int_def dec_digits.simps)
  have sel: "filter (test_selected None) random_tests = random_tests" by (simp add: test_selected_def)
  show "let draw = (\<lambda>k. 301 * 16807 ^ k mod (2 ^ 31 - 1)) in
    RandomTest_main Map.empty p = Some (Inr (0, put_err (
      test_report ''Uniform'' 10 (map (\<lambda>i. int (draw (i + 1) mod 10)) [0..<10000]) @
      test_report ''Skewed'' 64 (map (\<lambda>i. int (draw (2 * i + 2) mod 2 ^ (draw (2 * i + 1) mod 7))) [0..<10000]) @
      test_report ''Range'' 100 (map (\<lambda>i. int (100 * draw (i + 1) div (2 ^ 31 - 1))) [0..<100000]) @
      chars ''==== PASSED 3 tests'' @ [10]) p))"
    unfolding Let_def M RandomTest_main_def RunAllTests_eq
    using random_tests_run [of p] by (simp add: sel passed del: power_Suc)
qed

end
