(* ===== verification/C2_BuilderTest.thy ===== *)
theory C2_BuilderTest
  imports C2_BenchRun
begin

text \<open>
  The program of \<open>c2_index_builder_test.cc\<close>: it registers no test, and with a first argument that
  starts with \<open>--bench\<close> it builds one index by granules and evaluates twelve queries. The two
  \<open>fastbit\<close> calls are those of \<open>C2_BenchRun\<close>.
\<close>

section \<open>\<open>IndexBuilderBench\<close>\<close>

record 'bv IndexBuilderBench =
  ibb_opts :: "nat IndexBuilderOptions"
  ibb_col :: ibis_column
  ibb_bu :: "('bv, nat) IndexBuilder"
  ibb_tmpdir :: "byte list"

text \<open>
  The constructor: without a directory for tests the assertion of \<open>TmpDir\<close> ends the program; the
  status of \<open>CreateDir\<close> is dropped. \<open>FILE\<close> is the path of \<open>testharness.cc\<close> that the compiler was given.
\<close>

definition IndexBuilderBench_new :: "platform \<Rightarrow> byte list \<Rightarrow> 'w os \<Rightarrow> ('bv, 'g, 'w) fastbit \<Rightarrow> 'w process \<Rightarrow>
    ('w process + ('bv IndexBuilderBench \<times> 'w process)) option" where
  "IndexBuilderBench_new pf FILE os fb p =
     (case TmpDir FILE os p of
        Inl p \<Rightarrow> Some (Inl p)
      | Inr (dir, p) \<Rightarrow>
          do { let tmpdir = dir @ chars ''/index_builder_test'';
               let (st, w) = IO_CreateDir os (PosixLibcBufferedIOWrapper PosixIO) tmpdir (pr_world p);
               let p = p\<lparr>pr_world := w\<rparr>;
               let col = \<lparr>col_dir = tmpdir, col_name = chars ''var0'', col_spec = []\<rparr>;
               let opts = IndexBuilderOptions_new\<lparr>ibis_col := Some 0\<rparr>;
               bu \<leftarrow> IndexBuilder_new pf (fb_bin fb) opts None;
               Some (Inr (\<lparr>ibb_opts = opts, ibb_col = col, ibb_bu = bu, ibb_tmpdir = tmpdir\<rparr>, p)) })"

definition IndexBuilderBench_delete :: "'w os \<Rightarrow> 'bv IndexBuilderBench \<Rightarrow> 'w \<Rightarrow> 'w" where
  "IndexBuilderBench_delete os b w = IndexBuilder_delete os (ibb_bu b) w"

definition IndexBuilderBench_Build :: "('w \<Rightarrow> (int \<times> int) \<times> 'w) \<Rightarrow> ('bv, 'g, 'w) fastbit \<Rightarrow> rat list \<Rightarrow>
    'bv IndexBuilderBench \<Rightarrow> 'w process \<Rightarrow> 'bv IndexBuilderBench \<times> 'w process" where
  "IndexBuilderBench_Build gettimeofday fb inputdata b p =
     (let (t0, w) = now gettimeofday (pr_world p);
          (out, bu, w) = TEST_GranuleBuild gettimeofday fb (ibb_col b) inputdata (ibb_bu b) w;
          out = out @ [Text (fb_print fb (ib_bin bu))];
          (t, w) = now gettimeofday w;
          d = t - t0;
          out = out @ [Timed (chars ''== Index built in '') d (chars '' s'')]
      in (b\<lparr>ibb_bu := bu\<rparr>, put_reports out (p\<lparr>pr_world := w\<rparr>)))"

definition IndexBuilderBench_LessThan :: "('w \<Rightarrow> (int \<times> int) \<times> 'w) \<Rightarrow> ('bv, 'g, 'w) fastbit \<Rightarrow> 'bv IndexBuilderBench \<Rightarrow>
    rat \<Rightarrow> 'w process \<Rightarrow> 'w process" where
  "IndexBuilderBench_LessThan gettimeofday fb b a p =
     (let (t0, w) = now gettimeofday (pr_world p);
          ((h, results), w) = fb_evaluate fb (ibb_col b) a (ib_bin (ibb_bu b)) w;
          (t, w) = now gettimeofday w;
          d = t - t0
      in put_reports [Timed (chars ''== Query evaluated in '') d (chars '' s'')] (p\<lparr>pr_world := w\<rparr>))"

section \<open>\<open>BM_Main\<close>\<close>

record builder_flags =
  fl_n :: int
  fl_N :: int

definition builder_defaults :: builder_flags where
  "builder_defaults = \<lparr>fl_n = 10000000, fl_N = 39916801\<rparr>"

text \<open>The arguments after the first one. A number that is no \<open>int\<close> has no result.\<close>

fun builder_parse :: "byte list list \<Rightarrow> builder_flags \<Rightarrow> builder_flags option" where
  "builder_parse [] f = Some f"
| "builder_parse (arg # args) f =
     do { r \<leftarrow> sscanf_flag (chars ''--n='') arg;
          f \<leftarrow> (case r of
            Some a \<Rightarrow> Some (f\<lparr>fl_n := a\<rparr>)
          | None \<Rightarrow> do { r \<leftarrow> sscanf_flag (chars ''--N='') arg;
                        Some (case r of Some a \<Rightarrow> f\<lparr>fl_N := a\<rparr> | None \<Rightarrow> f) });
          builder_parse args f }"

text \<open>\<open>float(r.Uniform(FLAGS_N)) / 10\<close>, \<open>n\<close> times.\<close>

fun builder_keys :: "int \<Rightarrow> nat \<Rightarrow> Random \<Rightarrow> rat list option" where
  "builder_keys N 0 r = Some []"
| "builder_keys N (Suc n) r =
     do { (r, x) \<leftarrow> Random_Uniform r (word_of_int N);
          keys \<leftarrow> builder_keys N n r;
          Some (float32 (float32 (of_nat (unat x)) / 10) # keys) }"

text \<open>
  \<open>float(FLAGS_N) / 10 * q\<close>: the quotient is a \<open>float\<close>, the product with the literal \<open>q\<close> a \<open>double\<close>,
  which the call converts to a \<open>float\<close>.
\<close>

definition builder_bound :: "int \<Rightarrow> rat \<Rightarrow> rat" where
  "builder_bound N q = float32 (double (float32 (float32 (of_int N) / 10) * double q))"

definition builder_fractions :: "rat list" where
  "builder_fractions = [99 / 100, 9 / 10, 8 / 10, 7 / 10, 6 / 10, 5 / 10, 4 / 10, 3 / 10, 2 / 10, 1 / 10, 9 / 100, 9 / 1000]"

text \<open>\<open>reserve\<close> converts a negative number to a \<open>size_t\<close> beyond the maximum and throws.\<close>

definition builder_BM_Main :: "platform \<Rightarrow> byte list \<Rightarrow> 'w os \<Rightarrow> ('w \<Rightarrow> (int \<times> int) \<times> 'w) \<Rightarrow> ('bv, 'g, 'w) fastbit \<Rightarrow>
    byte list list \<Rightarrow> 'w process \<Rightarrow> ('w process + 'w process) option" where
  "builder_BM_Main pf FILE os gettimeofday fb args p =
     do { r \<leftarrow> IndexBuilderBench_new pf FILE os fb p;
          case r of
            Inl p \<Rightarrow> Some (Inl p)
          | Inr (b, p) \<Rightarrow>
              do { f \<leftarrow> builder_parse args builder_defaults;
                   inputdata \<leftarrow> (if fl_n f < 0 then None
                                 else builder_keys (fl_N f) (nat (fl_n f)) (Random_new 301));
                   let (b, p) = IndexBuilderBench_Build gettimeofday fb inputdata b p;
                   let p = fold (\<lambda>q. IndexBuilderBench_LessThan gettimeofday fb b (builder_bound (fl_N f) q))
                             builder_fractions p;
                   Some (Inr (p\<lparr>pr_world := IndexBuilderBench_delete os b (pr_world p)\<rparr>)) } }"

text \<open>
  \<open>main\<close>: \<open>args\<close> are the arguments after the name of the program; an empty slice starts with nothing
  (\<open>starts_with\<close> is \<open>prefix\<close>, see \<open>C2_Slice\<close>).
\<close>

definition builder_test_main :: "platform \<Rightarrow> byte list \<Rightarrow> 'w os \<Rightarrow> ('w \<Rightarrow> (int \<times> int) \<times> 'w) \<Rightarrow> ('bv, 'g, 'w) fastbit \<Rightarrow>
    (byte list \<Rightarrow> byte list option) \<Rightarrow> byte list list \<Rightarrow> 'w process \<Rightarrow> ('w process + (int \<times> 'w process)) option" where
  "builder_test_main pf FILE os gettimeofday fb getenv args p =
     (let token = (case args of [] \<Rightarrow> [] | a # _ \<Rightarrow> a) in
      if \<not> prefix (chars ''--bench'') token then RunAllTests getenv None p
      else do { r \<leftarrow> builder_BM_Main pf FILE os gettimeofday fb (tl args) p;
                case r of Inl p \<Rightarrow> Some (Inl p) | Inr p \<Rightarrow> Some (Inr (0, p)) })"

section \<open>Keys\<close>

text \<open>The end of the space of the keys, which the bounds are fractions of.\<close>

definition key_end :: "int \<Rightarrow> rat" where
  "key_end N = float32 (float32 (of_int N) / 10)"

lemma builder_parse_fits:
  "builder_parse args f = Some f' \<Longrightarrow> fits_int (fl_n f) \<Longrightarrow> fits_int (fl_N f) \<Longrightarrow> fits_int (fl_n f') \<and> fits_int (fl_N f')"
proof (induction args arbitrary: f)
  case (Cons arg args)
  have fits: "sscanf_flag p a = Some (Some k) \<Longrightarrow> fits_int k" for p a k
    by (auto simp: sscanf_flag_def split: if_splits option.splits)
  obtain a where a: "sscanf_flag (chars ''--n='') arg = Some a" using Cons.prems(1) by (auto simp: bind_Some_iff)
  show ?case
  proof (cases a)
    case None
    with Cons.prems(1) a obtain c where c: "sscanf_flag (chars ''--N='') arg = Some c" by (auto simp: bind_Some_iff)
    show ?thesis
    proof (cases c)
      case None
      with \<open>a = None\<close> Cons a c show ?thesis by simp
    next
      case (Some k)
      with \<open>a = None\<close> Cons.prems a c fits [of _ arg k] show ?thesis
        by (intro Cons.IH [of "f\<lparr>fl_N := k\<rparr>"]) auto
    qed
  next
    case (Some k)
    with Cons.prems a fits [of _ arg k] show ?thesis by (intro Cons.IH [of "f\<lparr>fl_n := k\<rparr>"]) auto
  qed
qed auto

lemma word_of_fits:
  assumes "fits_int N"
  shows "(word_of_int N :: u32) = 0 \<longleftrightarrow> N = 0"
    and "0 < N \<Longrightarrow> unat (word_of_int N :: u32) = nat N"
proof -
  have "uint (word_of_int N :: u32) = N mod 2 ^ 32" by (simp add: uint_word_of_int)
  with assms show "(word_of_int N :: u32) = 0 \<longleftrightarrow> N = 0"
    by (auto simp: fits_int_def word_of_int_eq_0_iff)
  show "0 < N \<Longrightarrow> unat (word_of_int N :: u32) = nat N"
    using assms by (simp add: fits_int_def unat_eq_nat_uint uint_word_of_int_eq take_bit_int_eq_self)
qed

text \<open>The keys in closed form: the draws of the generator from 301, reduced to the key space.\<close>

definition drawn_key :: "int \<Rightarrow> nat \<Rightarrow> rat" where
  "drawn_key N i = float32 (float32 (of_nat (301 * 16807 ^ (i + 1) mod (2 ^ 31 - 1) mod nat (N mod 2 ^ 32))) / 10)"

lemma builder_keys_draws:
  assumes "(word_of_int N :: u32) \<noteq> 0"
  shows "builder_keys N n r = Some (map (\<lambda>i. float32 (float32 (of_nat
    (unat (rnd_seed (Random_Nexts (i + 1) r)) mod unat (word_of_int N :: u32))) / 10)) [0..<n])"
proof (induction n arbitrary: r)
  case (Suc n)
  have "[0..<Suc n] = 0 # map Suc [0..<n]" by (simp add: upt_conv_Cons map_Suc_upt)
  moreover have "Random_Nexts (i + 1) (fst (Random_Next r)) = Random_Nexts (Suc i + 1) r" for i
    using Nexts_Next [of "i + 1" r] by simp
  ultimately show ?case
    using Suc [of "fst (Random_Next r)"]
    by (simp add: Uniform_eq [OF assms] snd_Next unat_mod_distrib comp_def del: of_nat_unat Random_Nexts.simps(2))
      (simp add: Random_Nexts.simps)
qed simp

lemma builder_keys_ok:
  assumes "fits_int N" "N \<noteq> 0 \<or> n = 0"
  shows "builder_keys N n (Random_new 301) = Some (map (drawn_key N) [0..<n])"
proof (cases "N = 0")
  case False
  have seed: "valid_seed (Random_new 301)" "unat (rnd_seed (Random_new 301)) = 301"
    using valid_seed_new [of 301] by (simp_all add: Random_new_def)
  have "unat (word_of_int N :: u32) = nat (N mod 2 ^ 32)"
    by (simp add: unat_eq_nat_uint uint_word_of_int)
  then show ?thesis
    using builder_keys_draws [of N n "Random_new 301"] False word_of_fits(1) [OF assms(1)] Nexts_power [OF seed(1)] seed(2)
    by (simp add: drawn_key_def del: of_nat_unat Random_Nexts.simps)
qed (use assms in simp)

lemma drawn_key_range:
  assumes "fits_int N" "0 < N"
  shows "0 \<le> drawn_key N i \<and> drawn_key N i \<le> key_end N"
proof -
  let ?x = "301 * 16807 ^ (i + 1) mod (2 ^ 31 - 1) mod nat (N mod 2 ^ 32)"
  have "N mod 2 ^ 32 = N" using assms by (simp add: fits_int_def)
  then have "?x < nat N" using assms(2) by simp
  then have "(of_nat ?x :: rat) \<le> of_int N" by linarith
  then have "drawn_key N i \<le> key_end N"
    unfolding drawn_key_def key_end_def by (intro fl_mono divide_right_mono) simp_all
  moreover have "0 \<le> drawn_key N i"
    unfolding drawn_key_def by (intro le_fl divide_nonneg_pos) simp_all
  ultimately show ?thesis by simp
qed

lemma builder_bound_le:
  assumes "0 \<le> N" "0 \<le> q" "q \<le> 1"
  shows "0 \<le> builder_bound N q \<and> builder_bound N q \<le> key_end N"
proof -
  have ke: "0 \<le> key_end N" "double (key_end N) = key_end N" "float32 (key_end N) = key_end N"
    unfolding key_end_def using assms(1) by (auto intro!: le_fl divide_nonneg_pos fl_fl)
  have one: "double 1 = 1" using fl_of_int [of 1 53] by simp
  have q: "0 \<le> double q" "double q \<le> 1" using assms(2,3) one by (auto intro!: le_fl fl_le)
  have "0 \<le> double (key_end N * double q)" "double (key_end N * double q) \<le> key_end N"
    using ke q by (auto intro!: le_fl fl_le mult_left_le)
  then show ?thesis
    unfolding builder_bound_def key_end_def [symmetric] using ke by (auto intro!: le_fl fl_le)
qed

section \<open>The run\<close>

text \<open>The command lines that make the program stop without a result: a negative or a useless number.\<close>

definition builder_runnable :: "builder_flags \<Rightarrow> bool" where
  "builder_runnable f \<longleftrightarrow> 0 \<le> fl_n f \<and> (fl_N f = 0 \<longrightarrow> fl_n f = 0)"

lemma builder_keys_zero: "builder_keys 0 n r = None \<longleftrightarrow> n \<noteq> 0"
  by (cases n) (auto simp: Random_Uniform_def split: prod.splits)

text \<open>Reading the clock: the state of the world after it.\<close>

definition tick :: "('w \<Rightarrow> (int \<times> int) \<times> 'w) \<Rightarrow> 'w \<Rightarrow> 'w" where
  "tick gettimeofday w = snd (gettimeofday w)"

lemma now_tick: "\<exists>t. now gettimeofday w = (t, tick gettimeofday w)"
  by (simp add: now_def tick_def split: prod.split)

lemma put_reports_world:
  "pr_world (put_reports out p) = pr_world p"
  "(put_reports out p)\<lparr>pr_world := w\<rparr> = put_reports out (p\<lparr>pr_world := w\<rparr>)"
  "put_reports out' (put_reports out p) = put_reports (out @ out') p"
  by (simp_all add: put_reports_def put_err_def)

text \<open>Where the program keeps its files, and the column of its index.\<close>

definition builder_dir :: "byte list \<Rightarrow> byte list" where
  "builder_dir dir = dir @ chars ''/index_builder_test''"

definition builder_col :: "byte list \<Rightarrow> ibis_column" where
  "builder_col dir = \<lparr>col_dir = builder_dir dir, col_name = chars ''var0'', col_spec = []\<rparr>"

lemma IndexBuilderBench_new_ok:
  assumes "new_law fb"
  shows "case TmpDir FILE os p of
      Inl p' \<Rightarrow> IndexBuilderBench_new pf FILE os fb p = Some (Inl p')
    | Inr (dir, p') \<Rightarrow> \<exists>b. IndexBuilderBench_new pf FILE os fb p =
          Some (Inr (b, p'\<lparr>pr_world := snd (PosixIO_CreateDir os (builder_dir dir) (pr_world p'))\<rparr>)) \<and>
        ibb_col b = builder_col dir \<and> ib_bin (ibb_bu b) = fb_bin fb \<and> ib_file (ibb_bu b) = None"
  using assms by (auto simp: IndexBuilderBench_new_def IndexBuilder_new_def new_law_def c_assert_def Let_def
      builder_col_def builder_dir_def IO_CreateDir_eq split: sum.split prod.split)

text \<open>\<open>Build\<close> reads the clock four times and leaves the index of its keys in the builder.\<close>

definition build_report :: "('bv, 'g, 'w) fastbit \<Rightarrow> 'bv ibis_bin \<Rightarrow> u64 \<Rightarrow> u64 \<Rightarrow> report list" where
  "build_report fb bin t1 t2 =
     [Timed (chars ''== Map granule: '') t1 (chars '' s''), Text (fb_print fb bin),
      Timed (chars ''== Index built in '') t2 (chars '' s'')]"

lemma Build_ok:
  assumes "ib_bin (ibb_bu b) = fb_bin fb"
  shows "\<exists>t1 t2. IndexBuilderBench_Build clock fb arr b p =
    (let bin = granuled fb (ibb_col b) arr in
     (b\<lparr>ibb_bu := (ibb_bu b)\<lparr>ib_bin := bin\<rparr>\<rparr>,
      put_reports (build_report fb bin t1 t2)
        (p\<lparr>pr_world := tick clock (tick clock (tick clock (tick clock (pr_world p))))\<rparr>)))"
proof -
  let ?t = "tick clock"
  obtain c1 c2 c3 c4 where "now clock (pr_world p) = (c1, ?t (pr_world p))"
    "now clock (?t (pr_world p)) = (c2, ?t (?t (pr_world p)))"
    "now clock (?t (?t (pr_world p))) = (c3, ?t (?t (?t (pr_world p))))"
    "now clock (?t (?t (?t (pr_world p)))) = (c4, ?t (?t (?t (?t (pr_world p)))))"
    using now_tick [of clock] by metis
  then have "IndexBuilderBench_Build clock fb arr b p =
    (let bin = granuled fb (ibb_col b) arr in
     (b\<lparr>ibb_bu := (ibb_bu b)\<lparr>ib_bin := bin\<rparr>\<rparr>,
      put_reports (build_report fb bin (c3 - c2) (c4 - c1)) (p\<lparr>pr_world := ?t (?t (?t (?t (pr_world p))))\<rparr>)))"
    using assms by (simp add: IndexBuilderBench_Build_def TEST_GranuleBuild_def granuled_def build_report_def Let_def)
  then show ?thesis by blast
qed

text \<open>A sequence of queries: each reads the clock, asks the library and reads the clock again.\<close>

definition query_world :: "('w \<Rightarrow> (int \<times> int) \<times> 'w) \<Rightarrow> ('bv, 'g, 'w) fastbit \<Rightarrow> ibis_column \<Rightarrow> 'bv ibis_bin \<Rightarrow>
    rat \<Rightarrow> 'w \<Rightarrow> 'w" where
  "query_world clock fb col bin a w = tick clock (snd (fb_evaluate fb col a bin (tick clock w)))"

definition query_report :: "u64 \<Rightarrow> report" where
  "query_report t = Timed (chars ''== Query evaluated in '') t (chars '' s'')"

lemma LessThan_ok:
  "\<exists>t. IndexBuilderBench_LessThan clock fb b a p = put_reports [query_report t]
     (p\<lparr>pr_world := query_world clock fb (ibb_col b) (ib_bin (ibb_bu b)) a (pr_world p)\<rparr>)"
proof -
  obtain h rs w where e: "fb_evaluate fb (ibb_col b) a (ib_bin (ibb_bu b)) (tick clock (pr_world p)) = ((h, rs), w)"
    by (metis surj_pair)
  obtain c1 c2 where "now clock (pr_world p) = (c1, tick clock (pr_world p))" "now clock w = (c2, tick clock w)"
    using now_tick [of clock] by metis
  with e have "IndexBuilderBench_LessThan clock fb b a p = put_reports [query_report (c2 - c1)]
     (p\<lparr>pr_world := query_world clock fb (ibb_col b) (ib_bin (ibb_bu b)) a (pr_world p)\<rparr>)"
    by (simp add: IndexBuilderBench_LessThan_def query_report_def query_world_def Let_def)
  then show ?thesis by blast
qed

lemma queries_ok:
  "\<exists>ts. length ts = length qs \<and> fold (\<lambda>q. IndexBuilderBench_LessThan clock fb b (bound q)) qs p =
     put_reports (map query_report ts) (p\<lparr>pr_world :=
       fold (query_world clock fb (ibb_col b) (ib_bin (ibb_bu b))) (map bound qs) (pr_world p)\<rparr>)"
proof (induction qs arbitrary: p)
  case Nil
  show ?case by (simp add: put_reports_def put_err_def)
next
  case (Cons q qs)
  let ?w = "query_world clock fb (ibb_col b) (ib_bin (ibb_bu b)) (bound q) (pr_world p)"
  obtain t where t: "IndexBuilderBench_LessThan clock fb b (bound q) p =
      put_reports [query_report t] (p\<lparr>pr_world := ?w\<rparr>)"
    using LessThan_ok by blast
  obtain ts where ts: "length ts = length qs"
    "fold (\<lambda>q. IndexBuilderBench_LessThan clock fb b (bound q)) qs (put_reports [query_report t] (p\<lparr>pr_world := ?w\<rparr>)) =
       put_reports (map query_report ts) (put_reports [query_report t] (p\<lparr>pr_world := ?w\<rparr>)\<lparr>pr_world :=
         fold (query_world clock fb (ibb_col b) (ib_bin (ibb_bu b))) (map bound qs) ?w\<rparr>)"
    using Cons [of "put_reports [query_report t] (p\<lparr>pr_world := ?w\<rparr>)"] by (auto simp: put_reports_world)
  then show ?case
    by (intro exI [of _ "t # ts"]) (simp add: t put_reports_world)
qed

text \<open>What the program does with \<open>n\<close> keys out of a space of \<open>N\<close>.\<close>

definition builder_run :: "'w os \<Rightarrow> ('w \<Rightarrow> (int \<times> int) \<times> 'w) \<Rightarrow> ('bv, 'g, 'w) fastbit \<Rightarrow> byte list \<Rightarrow>
    rat list \<Rightarrow> rat list \<Rightarrow> u64 \<Rightarrow> u64 \<Rightarrow> u64 list \<Rightarrow> 'w process \<Rightarrow> 'w process" where
  "builder_run os clock fb dir keys bounds t1 t2 ts p =
     (let bin = granuled fb (builder_col dir) keys;
          w = snd (PosixIO_CreateDir os (builder_dir dir) (pr_world p));
          w = tick clock (tick clock (tick clock (tick clock w)))
      in put_reports (build_report fb bin t1 t2 @ map query_report ts)
           (p\<lparr>pr_world := fold (query_world clock fb (builder_col dir) bin) bounds w\<rparr>))"

lemma builder_BM_Main_run:
  assumes "new_law fb" "TmpDir FILE os p = Inr (dir, p')" "builder_parse args builder_defaults = Some f"
    and "0 \<le> fl_n f" "builder_keys (fl_N f) (nat (fl_n f)) (Random_new 301) = Some keys"
  shows "\<exists>t1 t2 ts. length ts = length builder_fractions \<and> builder_BM_Main pf FILE os clock fb args p =
    Some (Inr (builder_run os clock fb dir keys (map (builder_bound (fl_N f)) builder_fractions) t1 t2 ts p'))"
proof -
  let ?p0 = "p'\<lparr>pr_world := snd (PosixIO_CreateDir os (builder_dir dir) (pr_world p'))\<rparr>"
  obtain b where b: "IndexBuilderBench_new pf FILE os fb p = Some (Inr (b, ?p0))"
      "ibb_col b = builder_col dir" "ib_bin (ibb_bu b) = fb_bin fb" "ib_file (ibb_bu b) = None"
    using IndexBuilderBench_new_ok [OF assms(1), where os = os and p = p and pf = pf and FILE = FILE] assms(2) by auto
  let ?bin = "granuled fb (builder_col dir) keys"
  let ?b1 = "b\<lparr>ibb_bu := (ibb_bu b)\<lparr>ib_bin := ?bin\<rparr>\<rparr>"
  let ?w = "tick clock (tick clock (tick clock (tick clock (pr_world ?p0))))"
  obtain t1 t2 p1 where build: "IndexBuilderBench_Build clock fb keys b ?p0 = (?b1, p1)"
      and p1: "p1 = put_reports (build_report fb ?bin t1 t2) (p'\<lparr>pr_world := ?w\<rparr>)"
    using Build_ok [OF b(3), of clock keys ?p0] by (auto simp: Let_def b(2))
  let ?W = "fold (query_world clock fb (builder_col dir) ?bin) (map (builder_bound (fl_N f)) builder_fractions) ?w"
  have w: "pr_world p1 = ?w" by (simp add: p1 put_reports_world)
  obtain ts where ts: "length ts = length builder_fractions"
    "fold (\<lambda>q. IndexBuilderBench_LessThan clock fb ?b1 (builder_bound (fl_N f) q)) builder_fractions p1 =
       put_reports (map query_report ts) (p1\<lparr>pr_world := ?W\<rparr>)"
    using queries_ok [where qs = builder_fractions and clock = clock and fb = fb and b = ?b1
        and bound = "builder_bound (fl_N f)" and p = p1]
    unfolding w by (auto simp: b(2) simp del: fold_map)
  have "builder_BM_Main pf FILE os clock fb args p = Some (Inr (put_reports (map query_report ts) (p1\<lparr>pr_world := ?W\<rparr>)))"
    using assms(3-5) b(1) build ts(2) b(4)
    by (simp add: builder_BM_Main_def Let_def put_reports_world
        IndexBuilderBench_delete_def IndexBuilder_delete_def del: fold_map)
  then show ?thesis using ts(1)
    by (intro exI [of _ t1] exI [of _ t2] exI [of _ ts])
      (simp add: p1 builder_run_def Let_def put_reports_world del: fold_map)
qed

lemma builder_BM_Main_cases:
  assumes "new_law fb" "TmpDir FILE os p = Inr (dir, p')" "builder_parse args builder_defaults = Some f"
  shows "if \<not> builder_runnable f then builder_BM_Main pf FILE os clock fb args p = None
    else \<exists>t1 t2 ts. length ts = length builder_fractions \<and> builder_BM_Main pf FILE os clock fb args p =
      Some (Inr (builder_run os clock fb dir (map (drawn_key (fl_N f)) [0..<nat (fl_n f)])
        (map (builder_bound (fl_N f)) builder_fractions) t1 t2 ts p'))"
proof (cases "builder_runnable f")
  case True
  have "fits_int (fl_n f) \<and> fits_int (fl_N f)"
    by (rule builder_parse_fits [OF assms(3)]) (simp_all add: builder_defaults_def fits_int_def)
  moreover have f: "0 \<le> fl_n f" "fl_N f \<noteq> 0 \<or> nat (fl_n f) = 0" using True by (auto simp: builder_runnable_def)
  ultimately have "builder_keys (fl_N f) (nat (fl_n f)) (Random_new 301) =
      Some (map (drawn_key (fl_N f)) [0..<nat (fl_n f)])"
    by (intro builder_keys_ok) simp_all
  from builder_BM_Main_run [OF assms f(1) this] True show ?thesis by simp
next
  case False
  obtain b w where b: "IndexBuilderBench_new pf FILE os fb p = Some (Inr (b, w))"
    using IndexBuilderBench_new_ok [OF assms(1), where os = os and p = p and pf = pf and FILE = FILE] assms(2) by auto
  have "fl_n f < 0 \<or> builder_keys (fl_N f) (nat (fl_n f)) (Random_new 301) = None"
    using False builder_keys_zero [of "nat (fl_n f)" "Random_new 301"] by (force simp: builder_runnable_def)
  with False assms(3) b show ?thesis by (auto simp: builder_BM_Main_def)
qed

lemma builder_BM_Main_stops:
  assumes "new_law fb"
  shows "TmpDir FILE os p = Inl p' \<Longrightarrow> builder_BM_Main pf FILE os clock fb args p = Some (Inl p')"
    and "TmpDir FILE os p = Inr r \<Longrightarrow> builder_parse args builder_defaults = None \<Longrightarrow>
      builder_BM_Main pf FILE os clock fb args p = None"
  using IndexBuilderBench_new_ok [OF assms, where os = os and p = p and pf = pf and FILE = FILE]
  by (auto simp: builder_BM_Main_def split: prod.splits)

lemma builder_range:
  assumes "builder_parse args builder_defaults = Some f" "0 < fl_N f"
    and "k \<in> set (map (drawn_key (fl_N f)) is) \<union> set (map (builder_bound (fl_N f)) builder_fractions)"
  shows "0 \<le> k \<and> k \<le> key_end (fl_N f)"
proof -
  have "fits_int (fl_n f) \<and> fits_int (fl_N f)"
    by (rule builder_parse_fits [OF assms(1)]) (simp_all add: builder_defaults_def fits_int_def)
  moreover have "0 \<le> builder_bound (fl_N f) q \<and> builder_bound (fl_N f) q \<le> key_end (fl_N f)"
    if "q \<in> set builder_fractions" for q
    using that assms(2) by (intro builder_bound_le) (auto simp: builder_fractions_def)
  ultimately show ?thesis using assms(2,3) drawn_key_range [of "fl_N f"] by auto
qed

section \<open>Properties\<close>

text \<open>
  C31: the program of \<open>c2_index_builder_test.cc\<close>: without \<open>--bench\<close> in front it runs no test and returns
  0; with it, it ends with status 1 when there is no directory for its files, stops without a result
  for numbers that are no \<open>int\<close>, a negative number of keys, and keys out of an empty space. Else it
  returns 0, and its run (\<open>builder_run\<close>) is: the library's index by granules of all the keys, which
  are the draws of the generator from 301 reduced to the key space, the report with the print of
  that index, and twelve queries on it with the bounds 0.99 to 0.009 of the space, in that order and a
  line for each; every effect of the library and of the clock on the world is accounted for. For
  \<open>N > 0\<close> the keys and the bounds lie between 0 and the end of the key space.
\<close>

theorem builder_test_runs:
  assumes "new_law fb"
  shows "let main = builder_test_main pf FILE os clock fb getenv args p in
    if \<not> prefix (chars ''--bench'') (case args of [] \<Rightarrow> [] | a # _ \<Rightarrow> a)
    then main = Some (Inr (0, put_err (chars ''==== PASSED 0 tests'' @ [10]) p))
    else (case TmpDir FILE os p of
        Inl p' \<Rightarrow> main = Some (Inl p')
      | Inr (dir, p') \<Rightarrow>
          (case builder_parse (tl args) builder_defaults of
            None \<Rightarrow> main = None
          | Some f \<Rightarrow>
              if fl_n f < 0 \<or> fl_N f = 0 \<and> fl_n f \<noteq> 0 then main = None
              else let keys = map (drawn_key (fl_N f)) [0..<nat (fl_n f)];
                       bounds = map (builder_bound (fl_N f)) [99 / 100, 9 / 10, 8 / 10, 7 / 10, 6 / 10, 5 / 10,
                         4 / 10, 3 / 10, 2 / 10, 1 / 10, 9 / 100, 9 / 1000]
                in (\<exists>t1 t2 ts. length ts = 12 \<and>
                      main = Some (Inr (0, builder_run os clock fb dir keys bounds t1 t2 ts p'))) \<and>
                   (0 < fl_N f \<longrightarrow> (\<forall>k \<in> set keys \<union> set bounds. 0 \<le> k \<and> k \<le> key_end (fl_N f)))))"
proof (cases "prefix (chars ''--bench'') (case args of [] \<Rightarrow> [] | a # _ \<Rightarrow> a)")
  case False
  have "chars ''==== PASSED '' @ dec_int (int 0) @ chars '' tests'' @ [10] = chars ''==== PASSED 0 tests'' @ [10]"
    by (simp add: chars_def dec_int_def dec_digits.simps)
  with False show ?thesis by (simp add: builder_test_main_def RunAllTests_def Let_def)
next
  case True
  then have main: "builder_test_main pf FILE os clock fb getenv args p =
      do { r \<leftarrow> builder_BM_Main pf FILE os clock fb (tl args) p;
           case r of Inl p \<Rightarrow> Some (Inl p) | Inr p \<Rightarrow> Some (Inr (0, p)) }"
    by (simp add: builder_test_main_def)
  show ?thesis
  proof (cases "TmpDir FILE os p")
    case (Inl p')
    with True show ?thesis by (simp add: main builder_BM_Main_stops(1) [OF assms])
  next
    case (Inr r)
    obtain dir p' where r: "r = (dir, p')" by fastforce
    show ?thesis
    proof (cases "builder_parse (tl args) builder_defaults")
      case None
      with True Inr r show ?thesis by (simp add: main builder_BM_Main_stops(2) [OF assms Inr])
    next
      case (Some f)
      have run: "(fl_n f < 0 \<or> fl_N f = 0 \<and> fl_n f \<noteq> 0) = (\<not> builder_runnable f)"
        by (auto simp: builder_runnable_def)
      have range: "0 < fl_N f \<longrightarrow> (\<forall>k \<in> set (map (drawn_key (fl_N f)) is) \<union>
          set (map (builder_bound (fl_N f)) builder_fractions). 0 \<le> k \<and> k \<le> key_end (fl_N f))" for "is"
        using builder_range [OF Some] by blast
      have n: "length builder_fractions = 12" by (simp add: builder_fractions_def)
      note cases = builder_BM_Main_cases [OF assms Inr [unfolded r] Some, of pf clock, unfolded n]
      have "if \<not> builder_runnable f then builder_test_main pf FILE os clock fb getenv args p = None
        else \<exists>t1 t2 ts. length ts = 12 \<and> builder_test_main pf FILE os clock fb getenv args p = Some (Inr (0,
          builder_run os clock fb dir (map (drawn_key (fl_N f)) [0..<nat (fl_n f)])
            (map (builder_bound (fl_N f)) builder_fractions) t1 t2 ts p'))"
      proof (cases "builder_runnable f")
        case True
        with cases obtain t1 t2 ts where "length ts = 12" "builder_BM_Main pf FILE os clock fb (tl args) p =
          Some (Inr (builder_run os clock fb dir (map (drawn_key (fl_N f)) [0..<nat (fl_n f)])
            (map (builder_bound (fl_N f)) builder_fractions) t1 t2 ts p'))"
          by (simp only: if_False not_True_eq_False) blast
        with True show ?thesis by (auto simp: main simp del: map_map)
      qed (use cases in \<open>simp add: main\<close>)
      with range [of "[0..<nat (fl_n f)]"] True Inr r Some show ?thesis
        using run by (cases "builder_runnable f") (simp_all add: builder_fractions_def Let_def, blast)
    qed
  qed
qed

theorem builder_test_runs_witness:
  "\<exists>dir w t1 t2 ts. length ts = 12 \<and> builder_test_main \<lparr>kLittleEndian = True, NDEBUG = False\<rparr>
      (chars ''testharness.cc'') mem_os (\<lambda>w. ((5, 7), w)) toy_fastbit Map.empty
      [chars ''--bench'', chars ''--n=3'', chars ''--N=10''] \<lparr>pr_stderr = [], pr_world = mem_empty 9 0\<rparr> =
    Some (Inr (0, builder_run mem_os (\<lambda>w. ((5, 7), w)) toy_fastbit dir (map (drawn_key 10) [0..<3])
      (map (builder_bound 10) builder_fractions) t1 t2 ts \<lparr>pr_stderr = [], pr_world = w\<rparr>))"
proof -
  let ?p = "\<lparr>pr_stderr = [], pr_world = mem_empty 9 0\<rparr>"
  let ?args = "[chars ''--bench'', chars ''--n=3'', chars ''--N=10'']"
  have "fst (PosixIO_CreateDir mem_os d w) = PosixError mem_os d EEXIST" for d w
    by (simp add: PosixIO_CreateDir_def mem_os_def)
  moreover have "is_AlreadyExists (PosixError mem_os d EEXIST)" for d
    by (simp add: PosixError_def is_AlreadyExists_def err_status_def)
  ultimately have made: "is_AlreadyExists (fst (PosixIO_CreateDir mem_os d w))" for d w by simp
  have "fst (PosixIO_GetTestDirectory mem_os (mem_empty 9 0)) = SOk"
    using made by (simp add: PosixIO_GetTestDirectory_def Let_def case_prod_beta)
  then obtain dir w where "PosixIO_GetTestDirectory mem_os (mem_empty 9 0) = (SOk, dir, w)" by (metis prod.collapse)
  then have tmp: "TmpDir (chars ''testharness.cc'') mem_os ?p = Inr (dir, ?p\<lparr>pr_world := w\<rparr>)" by (intro TmpDir_ok) simp
  have args: "chars ''--n=3'' = chars ''--n='' @ dec_int 3" "chars ''--N=10'' = chars ''--N='' @ dec_int 10"
    by (simp_all add: chars_def dec_int_def dec_digits.simps)
  have "sscanf_flag (chars ''--n='') (chars ''--n=3'') = Some (Some 3)"
    "sscanf_flag (chars ''--N='') (chars ''--N=10'') = Some (Some 10)"
    unfolding args by (rule sscanf_own, simp add: fits_int_def)+
  moreover have "sscanf_flag (chars ''--n='') (chars ''--N=10'') = Some None"
    by (simp add: sscanf_flag_def chars_def)
  ultimately have "builder_parse (tl ?args) builder_defaults = Some \<lparr>fl_n = 3, fl_N = 10\<rparr>"
    by (simp add: builder_defaults_def)
  from builder_test_runs [OF toy_laws(1), where args = ?args and p = ?p and os = mem_os
        and clock = "\<lambda>w. ((5, 7), w)" and getenv = Map.empty and pf = "\<lparr>kLittleEndian = True, NDEBUG = False\<rparr>"
        and FILE = "chars ''testharness.cc''"] this tmp
  obtain t1 t2 ts where "length ts = 12" "builder_test_main \<lparr>kLittleEndian = True, NDEBUG = False\<rparr>
      (chars ''testharness.cc'') mem_os (\<lambda>w. ((5, 7), w)) toy_fastbit Map.empty ?args ?p =
    Some (Inr (0, builder_run mem_os (\<lambda>w. ((5, 7), w)) toy_fastbit dir (map (drawn_key 10) [0..<3])
      (map (builder_bound 10) builder_fractions) t1 t2 ts \<lparr>pr_stderr = [], pr_world = w\<rparr>))"
    unfolding Let_def builder_fractions_def by (simp del: builder_parse.simps list.map upt_Suc map_map) blast
  then show ?thesis by blast
qed

end
