(* ===== verification/Spec2Isabelle.thy ===== *)
theory Spec2Isabelle
  imports C2_LengthPrefix C2_Fixed C2_RandomCycle C2_File C2_Records C2_Singleton C2_TestUtil
    C2_Harness C2_ErrorValue C2_Env C2_Builder C2_Bench C2_BenchRun
    C2_RandomDraws C2_RandomTest C2_BuilderTest
begin

text \<open>
  A verification library for the C++ code under \<open>src/src\<close>: a small storage library in the style of
  LevelDB (byte slices, integer and string encodings, statuses, a random generator, file output,
  a test harness) and an index builder and benchmark on top of the FastBit library.

  \<^bold>\<open>The parts and the theories\<close>

  \<^item> \<open>C2_Prelude\<close>: machine integers as words, the compile-time switches (\<open>port::kLittleEndian\<close> of
    \<open>port_posix.h\<close> and how it is found, \<open>NDEBUG\<close>) as the record \<open>platform\<close>, \<open>assert\<close>, bytes of a number.
  \<^item> \<open>C2_Memory\<close>: the memory of the C++ code: blocks of bytes, pointers with an offset. An access
    outside an object, a use of freed memory and pointer arithmetic that leaves the object have no
    result (\<open>None\<close>), so that a theorem with a result \<open>Some\<close> says that the code is safe.
  \<^item> \<open>C2_Slice\<close>: \<open>Slice\<close> (\<open>c2_slice.h\<close>, \<open>c2_slice.cc\<close>), refining operations on byte lists.
  \<^item> \<open>C2_Codec\<close>: the interfaces of \<open>c2_coding.h\<close> as locales: \<open>encoder\<close>, \<open>codec\<close> (self-delimiting) and
    \<open>fixed_codec\<close>; streams, prefix-freeness and random access are proved there once. \<open>C2_Fixed\<close>,
    \<open>C2_Varint\<close> and \<open>C2_LengthPrefix\<close> hold the routines of \<open>c2_coding.h\<close> and \<open>c2_coding.cc\<close>, the proofs
    that each equals its specification on numbers and byte lists, and the interpretations.
  \<^item> \<open>C2_Value\<close>: the locale \<open>heap_value\<close> of a class that owns heap memory; \<open>C2_Status\<close> is the class
    \<open>Status\<close> (\<open>c2_status.h\<close>, \<open>c2_status.cc\<close>), with its array on the heap, and interprets the locale.
  \<^item> \<open>C2_Random\<close>, \<open>C2_RandomCycle\<close>: \<open>Random\<close> (\<open>c2_random.h\<close>) and the period of its sequence;
    \<open>C2_RandomDraws\<close>: how often the derived draws give each value over that period.
  \<^item> \<open>C2_Float\<close>: the arithmetic of \<open>float\<close> and \<open>double\<close>: exact results rounded to nearest, ties to
    even, with the lemmas that bound and compare rounded results.
  \<^item> \<open>C2_Text\<close>: what the code uses of the C library on characters (\<open>%d\<close>, \<open>atoi\<close>, \<open>strstr\<close>).
  \<^item> \<open>C2_IO\<close>: \<open>IO\<close> with its wrappers, \<open>WritableFile\<close>, and their POSIX implementations (\<open>c2_io.h\<close>,
    \<open>c2_io_posix.h\<close>, \<open>c2_io_posix.cc\<close>), over an operating system that is a record of functions on a state of the
    world. \<open>C2_File\<close>: the locale \<open>writable_file\<close>, interpreted with both kinds of file, and an
    in-memory file system. \<open>C2_Singleton\<close>: the two \<open>IO\<close> objects of the process, made under
    \<open>pthread_once\<close>, with any number of calling threads as an inductive step relation.
  \<^item> \<open>C2_Records\<close>: length-prefixed records in a file, torn ends included; the properties that combine
    coding and files are in this theory.
  \<^item> \<open>C2_TestUtil\<close> (\<open>testutil.cc\<close>), \<open>C2_Harness\<close> (\<open>testharness.h\<close>, \<open>testharness.cc\<close>), \<open>C2_Env\<close>
    (\<open>c2_env.cc\<close>, \<open>port_posix.cc\<close>). \<open>C2_ErrorValue\<close>: statuses as values and as objects.
  \<^item> \<open>C2_Builder\<close> (\<open>c2_index_builder.h\<close>, \<open>c2_index_builder.cc\<close>), \<open>C2_Bench\<close> and \<open>C2_BenchRun\<close>
    (\<open>c2_index_bench.cc\<close>): the index builder, and the benchmark from its command line to its report.
  \<^item> \<open>C2_RandomTest\<close> (\<open>c2_random_test.cc\<close>) and \<open>C2_BuilderTest\<close> (\<open>c2_index_builder_test.cc\<close>): the two
    test programs, each from \<open>main\<close> on.

  \<^bold>\<open>How the parts interact\<close>

  Every component takes and returns slices and statuses. The theories of the components that only
  build or test statuses (files, harness, builder) use the value a \<open>Status\<close> stands for: \<open>C2_Status\<close>
  shows that no client can tell the objects from those values, and \<open>C2_ErrorValue\<close> that the objects
  which \<open>PosixError\<close> makes are the values that the theories of files compute with. The
  files are read back with the decoders in \<open>C2_Records\<close>. The programs run as a \<open>process\<close>, which is
  what has been written to \<open>stderr\<close> and the world, and which an assertion of the harness can end. The
  harness and the programs reach the files through \<open>IO::Default()\<close>, which \<open>C2_Singleton\<close> shows to be the
  buffered wrapper in every call that returns (a failing \<open>pthread_once\<close> aborts the process).

  \<^bold>\<open>What the lemmas show\<close>

  Round trips (varints, fixed width, strings, records in a file, options of a command line),
  equivalence of the unrolled and byte-order-specific routines with one specification, refinement
  of lists (\<open>Slice\<close>) and of plain values (\<open>Status\<close>), the exact behaviour on malformed input and failed
  system calls, absence of leaks and double frees, the full period of the generator, termination
  of the loops, what the programs print, the range and order of what they compute in floating
  point, and the bounds within which the 32-bit sizes are right. Where a bound is needed,
  a lemma beside it shows what happens beyond (\<open>C2_Slice.slice_compare_truncates\<close>,
  \<open>C2_LengthPrefix.length_prefix_keeps_low_32_bits\<close>, \<open>C2_Varint.get_varint32_drops_high_bits\<close>).

  \<^bold>\<open>Parameters, loops and bounds\<close>

  The operating system (record \<open>os\<close>) and FastBit (record \<open>fastbit\<close>) are not in the repository. What
  the code relies on of them are the named hypotheses \<open>os_laws\<close> (POSIX on \<open>open\<close> with its flags, \<open>write\<close>, \<open>close\<close>,
  the streams of the C library and \<open>fdatasync\<close>, over three contents of a file: buffered, handed to the
  system, and on the device), \<open>new_law\<close>, \<open>build_law\<close> and \<open>query_law\<close> (the lists of an index that was built are
  consistent, and queries on it succeed), each with an instance in which it holds: an in-memory file
  system, and an index with a single bin. A query takes and returns the world, as the library
  may read the data on disk for it; its other calls work on what is in memory. Paths that the compiler puts in (\<open>__FILE__\<close>), error numbers that a
  thread function may return and the printing of the operands of a comparison are arguments. No definition uses fuel: the varint loops
  terminate by a measure on the shift, the remaining loops count down, and the one loop that may
  run forever (\<open>C2_TestUtil.fill_loop\<close>) is a partial function that is proved to return.

  \<^bold>\<open>Not modelled\<close>

  \<open>Column\<close> and \<open>Part\<close> (\<open>c2_column.h\<close>, \<open>c2_part.h\<close>), \<open>port::Mutex\<close> and \<open>port::CondVar\<close>: declared
  without an implementation in the repository. Infinities, not-a-number and the bounds of the
  exponents of floating-point numbers, which no computation of the programs comes near. Failed
  allocations. The macros for systems other than Linux, which rename three functions of the C library. The deletion of FastBit's partition and column, and its log level.
\<close>

section \<open>Records in a file\<close>

text \<open>
  C1: records written with \<open>PutLengthPrefixedSlice\<close>, appended to a new file through any \<open>IO\<close>, a
  \<open>PosixIO\<close> under a stack of wrappers, and closed, with every status OK: a reader of the file gets them back in order, all of them and
  nothing else.
\<close>

theorem records_through_file:
  assumes "os_laws os v" "list_all2 (\<lambda>v bs. slice_bytes m v = Some bs) vs strs"
    and "\<forall>bs \<in> set strs. length bs < 2 ^ 32"
    and "list_all2 (\<lambda>v fr. PutLengthPrefixedSlice m [] v = Some fr) vs frags"
    and "write_file os io fname frags w = Some (SOk, w')"
    and "slice_bytes m' s = Some (content v fname w')"
  shows "\<exists>vs' s'. get_all (GetLengthPrefixedSlice pf) v0 m' s (length vs) = Some (vs', s') \<and>
    list_all2 (\<lambda>v bs. slice_bytes m' v = Some bs) vs' strs \<and> slice_bytes m' s' = Some []"
proof -
  have valid: "list_all (\<lambda>bs. length bs < 2 ^ 32) strs" using assms(3) by (simp add: list_all_iff)
  have "content v fname w' = concat frags" using write_file_content [OF assms(1,5)] .
  with put_records [OF assms(2,4)] assms(6) have "slice_bytes m' s = Some (concat (map prefixed strs) @ [])"
    by simp
  from length_prefixed.get_all_enc [OF this valid, of pf v0] list_all2_lengthD [OF assms(2)]
  show ?thesis by simp
qed

theorem records_through_file_witness:
  "\<exists>w vs' s'. write_file mem_os (PosixLibcBufferedIOWrapper PosixIO) [97] [[2, 5, 6], [0]] (mem_empty 9 0) = Some (SOk, w) \<and>
    get_all (GetLengthPrefixedSlice \<lparr>kLittleEndian = True, NDEBUG = False\<rparr>) Slice_empty
      (store_of [2, 5, 6, 0]) (Slice_new (Ptr 1 0) 4) 2 = Some (vs', s') \<and>
    list_all2 (\<lambda>v bs. slice_bytes (store_of [2, 5, 6, 0]) v = Some bs) vs' [[5, 6], []]"
proof -
  let ?m = "store_of [5, 6]" and ?vs = "[Slice_new (Ptr 1 0) 2, Slice_empty]"
  have den: "slice_bytes ?m (Slice_new (Ptr 1 0) 2) = Some [5, 6]" "slice_bytes ?m Slice_empty = Some []"
    by (simp_all add: slice_bytes_def Slice_new_def Slice_empty_def store_of_def)
  then have strs: "list_all2 (\<lambda>v bs. slice_bytes ?m v = Some bs) ?vs [[5, 6], []]"
    "\<forall>bs \<in> set [[5, 6], []]. length (bs :: byte list) < 2 ^ 32"
    by simp_all
  have "prefixed [5, 6] = [2, 5, 6]" "prefixed [] = [0]"
    by (simp_all add: prefixed_def varint_bytes.simps)
  with den have put: "list_all2 (\<lambda>v fr. PutLengthPrefixedSlice ?m [] v = Some fr) ?vs [[2, 5, 6], [0]]"
    by (simp add: PutLengthPrefixedSlice_appends)
  obtain w where w: "write_file mem_os (PosixLibcBufferedIOWrapper PosixIO) [97] [[2, 5, 6], [0]] (mem_empty 9 0) = Some (SOk, w)"
    by (simp add: write_file_def PosixLibcBufferedIOWrapper_NewWritableFile_def mem_os_def mem_empty_def
        PosixBufferedWritableFile_new_def PosixBufferedWritableFile_Append_def
        PosixBufferedWritableFile_Close_def mem_fflush_def mem_file_def mem_open_def)
  have input: "slice_bytes (store_of [2, 5, 6, 0]) (Slice_new (Ptr 1 0) 4) = Some (content mem_view [97] w)"
    using write_file_content [OF mem_os_laws w] by (simp add: slice_bytes_def Slice_new_def)
  have "length ?vs = 2" by simp
  with w records_through_file [OF mem_os_laws strs put w input] show ?thesis by metis
qed

text \<open>
  C4: the same through an unbuffered file that may fill up at any point: whatever status the appends
  end with, a reader that asks for all records gets a first part of them, each one whole, and it
  is all of them exactly when the status is OK. A record that was torn is never returned.
\<close>

theorem torn_records_recovered:
  assumes "os_laws os v" "list_all2 (\<lambda>v bs. slice_bytes m v = Some bs) vs strs"
    and "\<forall>bs \<in> set strs. length bs < 2 ^ 32"
    and "list_all2 (\<lambda>v fr. PutLengthPrefixedSlice m [] v = Some fr) vs frags"
    and "IO_NewWritableFile os PosixIO fname w = (SOk, Some f, w0)"
    and "append_all (WritableFile_Append os) f frags w0 = Some (st, w1)"
    and "slice_bytes m' s = Some (content v fname w1)"
  shows "\<exists>i \<le> length strs. (st = SOk \<longleftrightarrow> i = length strs) \<and>
    (\<exists>vs' s'. get_all (GetLengthPrefixedSlice pf) v0 m' s (length vs) = Some (vs', s') \<and>
      list_all2 (\<lambda>v bs. slice_bytes m' v = Some bs) vs' (take i strs))"
proof -
  have frags: "frags = map prefixed strs" using assms(2,4) by (rule put_records)
  have n: "length vs = length strs" using assms(2) by (rule list_all2_lengthD)
  from NewWritableFile_opened [OF assms(1,5)]
  have f: "file_opened os v f w0" "file_logical v f w0 = []" "\<And>u. file_stored v f u = content v fname u"
    by simp_all
  obtain u where u: "f = Unbuffered u"
    using assms(5) by (auto simp: PosixIO_NewWritableFile_def split: prod.splits if_splits)
  have cont: "content v (pw_filename u) w0 = []" "content v (pw_filename u) w1 = content v fname w1"
    using f(2) f(3) [of w1] u by simp_all
  note part = Unbuffered_append_all_part [OF f(1) [unfolded u] assms(6) [unfolded u]]
  show ?thesis
  proof (cases "st = SOk")
    case True
    have valid: "list_all (\<lambda>bs. length bs < 2 ^ 32) strs" using assms(3) by (simp add: list_all_iff)
    from True part cont assms(7) frags have "slice_bytes m' s = Some (concat (map prefixed strs) @ [])" by simp
    from length_prefixed.get_all_enc [OF this valid, of pf v0] True n show ?thesis by auto
  next
    case False
    with part cont assms(7) frags obtain i k where i: "i < length strs" "k < length (prefixed (strs ! i))"
        "slice_bytes m' s = Some (concat (map prefixed (take i strs)) @ take k (prefixed (strs ! i)))"
      by (auto simp: take_map)
    have "\<forall>a \<in> set (strs ! i # take i strs). length a < 2 ^ 32"
      using assms(3) i(1) by (auto dest: in_set_takeD)
    from get_all_torn [OF i(3,2) this, of "length vs" pf v0] i(1) n False show ?thesis
      by (intro exI [of _ i]) auto
  qed
qed

theorem torn_records_recovered_witness:
  "\<exists>i vs' s'. i < 2 \<and> get_all (GetLengthPrefixedSlice \<lparr>kLittleEndian = True, NDEBUG = False\<rparr>) Slice_empty
      (store_of [2, 5, 6, 1]) (Slice_new (Ptr 1 0) 4) 2 = Some (vs', s') \<and>
    list_all2 (\<lambda>v bs. slice_bytes (store_of [2, 5, 6, 1]) v = Some bs) vs' (take i [[5, 6], [9]])"
proof -
  let ?m = "store_of [5, 6, 9]" and ?vs = "[Slice_new (Ptr 1 0) 2, Slice_new (Ptr 1 2) 1]"
  have den: "slice_bytes ?m (Slice_new (Ptr 1 0) 2) = Some [5, 6]" "slice_bytes ?m (Slice_new (Ptr 1 2) 1) = Some [9]"
    by (simp_all add: slice_bytes_def Slice_new_def store_of_def)
  then have strs: "list_all2 (\<lambda>v bs. slice_bytes ?m v = Some bs) ?vs [[5, 6], [9]]"
    "\<forall>bs \<in> set [[5, 6], [9]]. length (bs :: byte list) < 2 ^ 32"
    by simp_all
  have "prefixed [5, 6] = [2, 5, 6]" "prefixed [9] = [1, 9]"
    by (simp_all add: prefixed_def varint_bytes.simps)
  with den have put: "list_all2 (\<lambda>v fr. PutLengthPrefixedSlice ?m [] v = Some fr) ?vs [[2, 5, 6], [1, 9]]"
    by (simp add: PutLengthPrefixedSlice_appends)
  obtain f w0 where new: "IO_NewWritableFile mem_os PosixIO [97] (mem_empty 4 0) = (SOk, Some f, w0)"
    and f: "f = Unbuffered \<lparr>pw_filename = [97], pw_fd = 3\<rparr>"
    and w0: "m_fd w0 3 = Some [97]" "m_files w0 [97] = []" "m_space w0 = 4"
    by (simp add: PosixIO_NewWritableFile_def mem_os_def mem_open_def mem_empty_def PosixWritableFile_new_def
        O_TRUNC_def O_WRONLY_def O_CREAT_def)
  obtain st w1 where app: "append_all (WritableFile_Append mem_os) f [[2, 5, 6], [1, 9]] w0 = Some (st, w1)"
      "st \<noteq> SOk" "m_files w1 [97] = [2, 5, 6, 1]"
    using w0 by (simp add: f PosixWritableFile_Append_def mem_os_def mem_write_def)
  have input: "slice_bytes (store_of [2, 5, 6, 1]) (Slice_new (Ptr 1 0) 4) = Some (content mem_view [97] w1)"
    using app(3) by (simp add: slice_bytes_def Slice_new_def mem_view_def)
  have "length ?vs = 2" by simp
  with torn_records_recovered [OF mem_os_laws strs put new app(1) input, of "\<lparr>kLittleEndian = True, NDEBUG = False\<rparr>" Slice_empty]
    app(2) obtain i where "i \<le> length [[5, 6], [9 :: byte]]" "i \<noteq> length [[5, 6], [9 :: byte]]"
      "\<exists>vs' s'. get_all (GetLengthPrefixedSlice \<lparr>kLittleEndian = True, NDEBUG = False\<rparr>) Slice_empty
        (store_of [2, 5, 6, 1]) (Slice_new (Ptr 1 0) 4) 2 = Some (vs', s') \<and>
      list_all2 (\<lambda>v bs. slice_bytes (store_of [2, 5, 6, 1]) v = Some bs) vs' (take i [[5, 6], [9]])"
    by metis
  then show ?thesis by (intro exI [of _ i]) auto
qed

end
